theory Spec2Isabelle
  imports Complex_Main
begin

section \<open>Numbers, points and index types\<close>

text \<open>
  The program is TypeScript; its \<^verbatim>\<open>number\<close> values are IEEE doubles.  The model
  computes with reals: a coordinate, a slider value or a threshold is a \<^typ>\<open>real\<close>,
  and an arithmetic result is the exact one, without rounding.  What the model keeps of
  the double format is its range: where the code compares a computed distance, the
  result is a \<open>number\<close>, which is infinite when the exact value lies outside the range
  of the doubles (\<open>overflows\<close>), as \<^verbatim>\<open>Number.POSITIVE_INFINITY\<close> is in the code.  The
  other infinities of the code are the ones it writes itself (the circumradius of a
  flat triangle, the initial best distance of a scan).  Rounding is modelled where a
  test of the code is decided by it, the area of a triangle compared with zero: the
  last section of definitions gives \<^verbatim>\<open>triangleArea\<close> with every operation rounded.
  Array positions are natural numbers; an index read from an array or an edge is an
  integer, since the triangulation and the code store the sentinel \<^verbatim>\<open>-1\<close> there.
\<close>

datatype number = Finite real | PositiveInfinity

text \<open>\<^verbatim>\<open>a < b\<close> and \<^verbatim>\<open>a > b\<close> on numbers that may be infinite, and \<^verbatim>\<open>Number.isFinite\<close>.\<close>

fun number_less :: "number \<Rightarrow> number \<Rightarrow> bool" where
  "number_less (Finite a) (Finite b) = (a < b)"
| "number_less (Finite a) PositiveInfinity = True"
| "number_less PositiveInfinity b = False"

fun isFinite :: "number \<Rightarrow> bool" where
  "isFinite (Finite a) = True"
| "isFinite PositiveInfinity = False"

text \<open>
  A real rounds to an infinite double when its magnitude reaches
  \<^verbatim>\<open>Number.MAX_VALUE\<close> plus half a unit in the last place, \<open>2\<^sup>1\<^sup>0\<^sup>2\<^sup>4 - 2\<^sup>9\<^sup>7\<^sup>0\<close>.
\<close>

definition overflow_threshold :: real where
  "overflow_threshold = 2 ^ 1024 - 2 ^ 970"

definition overflows :: "real \<Rightarrow> bool" where
  "overflows r = (overflow_threshold \<le> \<bar>r\<bar>)"

text \<open>
  \<^verbatim>\<open>Math.max(a, b)\<close>, \<^verbatim>\<open>a - e\<close> and \<^verbatim>\<open>a / c\<close> for a number \<open>a\<close> that may be positive
  infinity and finite \<open>e\<close> and \<open>c > 0\<close>: an infinity stays one.
\<close>

fun number_max :: "number \<Rightarrow> number \<Rightarrow> number" where
  "number_max (Finite a) (Finite b) = Finite (max a b)"
| "number_max (Finite a) PositiveInfinity = PositiveInfinity"
| "number_max PositiveInfinity b = PositiveInfinity"

fun number_minus :: "number \<Rightarrow> real \<Rightarrow> number" where
  "number_minus (Finite a) e = Finite (a - e)"
| "number_minus PositiveInfinity e = PositiveInfinity"

fun number_divide :: "number \<Rightarrow> real \<Rightarrow> number" where
  "number_divide (Finite a) c = Finite (a / c)"
| "number_divide PositiveInfinity c = PositiveInfinity"

record Point =
  id_of :: int
  x_of :: real
  y_of :: real

type_synonym EdgeIndex = "int \<times> int"

type_synonym TriangleIndex = "int \<times> int \<times> int"

type_synonym polygon = "(real \<times> real) list"

section \<open>Constants\<close>

record slider_range =
  sliderMax :: real
  radiusMin :: real
  radiusMax :: real

definition FIRST_RANGE :: slider_range where
  "FIRST_RANGE = \<lparr>sliderMax = 1 / 2, radiusMin = 12, radiusMax = 500\<rparr>"

definition SECOND_RANGE :: slider_range where
  "SECOND_RANGE = \<lparr>sliderMax = 3 / 4, radiusMin = 500, radiusMax = 1000\<rparr>"

definition THIRD_RANGE :: slider_range where
  "THIRD_RANGE = \<lparr>sliderMax = 1, radiusMin = 1000, radiusMax = 5000\<rparr>"

definition EPSILON :: real where
  "EPSILON = 1 / 1000000"

section \<open>Numeric primitives (math-utils.ts)\<close>

text \<open>
  The three branches of \<^verbatim>\<open>sliderToRadius\<close>, each under its own name so that a branch
  can be evaluated at a value the guard of \<^verbatim>\<open>sliderToRadius\<close> would send elsewhere.
\<close>

definition sliderToRadius_first :: "real \<Rightarrow> real" where
  "sliderToRadius_first t =
     (let localT = t / sliderMax FIRST_RANGE
      in radiusMin FIRST_RANGE + localT * (radiusMax FIRST_RANGE - radiusMin FIRST_RANGE))"

definition sliderToRadius_second :: "real \<Rightarrow> real" where
  "sliderToRadius_second t =
     (let localT = (t - sliderMax FIRST_RANGE) / (1 / 4)
      in radiusMin SECOND_RANGE + localT * (radiusMax SECOND_RANGE - radiusMin SECOND_RANGE))"

definition sliderToRadius_third :: "real \<Rightarrow> real" where
  "sliderToRadius_third t =
     (let localT = (t - sliderMax SECOND_RANGE) / (1 / 4)
      in radiusMin THIRD_RANGE + localT * (radiusMax THIRD_RANGE - radiusMin THIRD_RANGE))"

definition sliderToRadius :: "real \<Rightarrow> real" where
  "sliderToRadius t =
     (if t \<le> sliderMax FIRST_RANGE then sliderToRadius_first t
      else if t \<le> sliderMax SECOND_RANGE then sliderToRadius_second t
      else sliderToRadius_third t)"

definition radiusToSlider :: "real \<Rightarrow> real" where
  "radiusToSlider r =
     (if r \<le> radiusMax FIRST_RANGE then
        ((r - radiusMin FIRST_RANGE) / (radiusMax FIRST_RANGE - radiusMin FIRST_RANGE))
          * sliderMax FIRST_RANGE
      else if r \<le> radiusMax SECOND_RANGE then
        sliderMax FIRST_RANGE
          + ((r - radiusMin SECOND_RANGE) / (radiusMax SECOND_RANGE - radiusMin SECOND_RANGE))
            * (1 / 4)
      else
        sliderMax SECOND_RANGE
          + ((r - radiusMin THIRD_RANGE) / (radiusMax THIRD_RANGE - radiusMin THIRD_RANGE))
            * (1 / 4))"

text \<open>\<^verbatim>\<open>Math.hypot(u, v)\<close> of two finite arguments, in exact arithmetic.\<close>

definition hypot :: "real \<Rightarrow> real \<Rightarrow> real" where
  "hypot u v = sqrt (u * u + v * v)"

text \<open>
  \<^verbatim>\<open>distanceSquared\<close> and \<^verbatim>\<open>distance\<close>.  A difference of two coordinates, a square or
  the sum that leaves the range of the doubles is an infinity, and every later result
  is then positive infinity (the square of an infinity, a sum with it,
  \<^verbatim>\<open>Math.hypot\<close> of it); no step gives \<^verbatim>\<open>NaN\<close>.
\<close>

definition distanceSquared :: "Point \<Rightarrow> Point \<Rightarrow> number" where
  "distanceSquared a b =
     (let dx = x_of a - x_of b; dy = y_of a - y_of b
      in if overflows dx \<or> overflows dy \<or> overflows (dx * dx) \<or> overflows (dy * dy)
            \<or> overflows (dx * dx + dy * dy)
         then PositiveInfinity
         else Finite (dx * dx + dy * dy))"

definition distance :: "Point \<Rightarrow> Point \<Rightarrow> number" where
  "distance a b =
     (let dx = x_of a - x_of b; dy = y_of a - y_of b
      in if overflows dx \<or> overflows dy \<or> overflows (hypot dx dy)
         then PositiveInfinity
         else Finite (hypot dx dy))"

text \<open>
  \<^verbatim>\<open>triangleArea\<close> and \<^verbatim>\<open>circumradius\<close> in exact arithmetic (\<open>triangleArea_double\<close>
  below is the area with the rounding of the doubles).
\<close>

definition triangleArea :: "real \<Rightarrow> real \<Rightarrow> real \<Rightarrow> real \<Rightarrow> real \<Rightarrow> real \<Rightarrow> real" where
  "triangleArea a_x a_y b_x b_y c_x c_y =
     \<bar>a_x * (b_y - c_y) + b_x * (c_y - a_y) + c_x * (a_y - b_y)\<bar> * (1 / 2)"

definition circumradius :: "real \<Rightarrow> real \<Rightarrow> real \<Rightarrow> real \<Rightarrow> real \<Rightarrow> real \<Rightarrow> number" where
  "circumradius a_x a_y b_x b_y c_x c_y =
     (let a = hypot (b_x - c_x) (b_y - c_y);
          b = hypot (a_x - c_x) (a_y - c_y);
          c = hypot (a_x - b_x) (a_y - b_y);
          area = triangleArea a_x a_y b_x b_y c_x c_y
      in if area = 0 then PositiveInfinity else Finite ((a * b * c) / (4 * area)))"

section \<open>Polygons (geometry-algorithms.ts)\<close>

text \<open>
  \<^verbatim>\<open>polygon.slice(0, -1)\<close> is the polygon without its last vertex.  The guard reads
  \<^verbatim>\<open>polygon[0]\<close> and \<^verbatim>\<open>polygon[polygon.length - 1]\<close> only when the length is not zero.
\<close>

definition polygonWithoutDuplicate :: "polygon \<Rightarrow> polygon" where
  "polygonWithoutDuplicate polygon =
     (if length polygon \<noteq> 0
         \<and> fst (polygon ! 0) = fst (polygon ! (length polygon - 1))
         \<and> snd (polygon ! 0) = snd (polygon ! (length polygon - 1))
      then butlast polygon
      else polygon)"

section \<open>Arrays, keys and maps\<close>

text \<open>
  Reading a JavaScript array outside its bounds gives \<^verbatim>\<open>undefined\<close> (here \<open>None\<close>);
  reading a field of \<^verbatim>\<open>undefined\<close> throws a \<^verbatim>\<open>TypeError\<close>.
\<close>

datatype error = TypeError

definition array_get :: "'a list \<Rightarrow> nat \<Rightarrow> 'a option" where
  "array_get xs i = (if i < length xs then Some (xs ! i) else None)"

definition array_get_int :: "'a list \<Rightarrow> int \<Rightarrow> 'a option" where
  "array_get_int xs i = (if 0 \<le> i \<and> i < int (length xs) then Some (xs ! nat i) else None)"

text \<open>
  \<^verbatim>\<open>edgeKey(a, b)\<close> is the string \<^verbatim>\<open>`${a}-${b}`\<close> with the smaller index first, and
  \<^verbatim>\<open>decodeEdgeKey\<close> parses the two indices back.  \<^verbatim>\<open>computeAlphaData\<close> and
  \<^verbatim>\<open>computeNearestNeighborEdges\<close> pass positions of the point sequence, non-negative
  integers, for which the string and the ordered pair determine each other
  (\<open>key_parse_key_string\<close> and \<open>key_string_inj\<close> below), so there the key is kept as
  the ordered pair.
\<close>

type_synonym edge_key = "nat \<times> nat"

definition edgeKey :: "nat \<Rightarrow> nat \<Rightarrow> edge_key" where
  "edgeKey a b = (if a < b then (a, b) else (b, a))"

definition decodeEdgeKey :: "edge_key \<Rightarrow> EdgeIndex" where
  "decodeEdgeKey key = (case key of (a, b) \<Rightarrow> (int a, int b))"

text \<open>
  The key as the code writes it: the decimal digits of the smaller index, a dash, the
  decimal digits of the larger one.  \<open>key_parse\<close> is \<^verbatim>\<open>key.split("-")\<close> followed by
  \<^verbatim>\<open>Number.parseInt(value, 10)\<close> on the two parts, for a string of that form.
\<close>

definition digit_char :: "nat \<Rightarrow> char" where
  "digit_char d = ''0123456789'' ! d"

definition digit_value :: "char \<Rightarrow> nat" where
  "digit_value c = length (takeWhile (\<lambda>x. x \<noteq> c) ''0123456789'')"

function decimal :: "nat \<Rightarrow> string" where
  "decimal n = (if n < 10 then [digit_char n] else decimal (n div 10) @ [digit_char (n mod 10)])"
  by pat_completeness auto
termination
  by (relation "measure id") auto

declare decimal.simps [simp del]

definition key_string :: "edge_key \<Rightarrow> string" where
  "key_string key = (case key of (a, b) \<Rightarrow> decimal a @ ''-'' @ decimal b)"

definition parse_decimal :: "string \<Rightarrow> nat" where
  "parse_decimal s = foldl (\<lambda>acc c. 10 * acc + digit_value c) 0 s"

definition key_parse :: "string \<Rightarrow> edge_key" where
  "key_parse s =
     (parse_decimal (takeWhile (\<lambda>c. c \<noteq> CHR ''-'') s),
      parse_decimal (tl (dropWhile (\<lambda>c. c \<noteq> CHR ''-'') s)))"

text \<open>
  \<^verbatim>\<open>collectDelaunayEdges\<close> builds keys from entries of the triangulation, which can be
  the sentinel \<^verbatim>\<open>-1\<close>; there the key is the string itself.  The text of a negative
  integer has a leading dash.  On non-negative indices \<open>edgeKey_string\<close> is the string
  of \<open>edgeKey\<close> (\<open>edgeKey_string_nat\<close> below).
\<close>

definition integer_string :: "int \<Rightarrow> string" where
  "integer_string i = (if i < 0 then CHR ''-'' # decimal (nat (- i)) else decimal (nat i))"

definition edgeKey_string :: "int \<Rightarrow> int \<Rightarrow> string" where
  "edgeKey_string a b =
     (if a < b then integer_string a @ ''-'' @ integer_string b
      else integer_string b @ ''-'' @ integer_string a)"

text \<open>
  A \<^verbatim>\<open>Map\<close> and a \<^verbatim>\<open>Set\<close> iterate in insertion order: a map is an association list
  in which \<^verbatim>\<open>set\<close> overwrites a present key in place and appends an absent one, a set
  a list to which \<^verbatim>\<open>add\<close> appends an absent element.
\<close>

fun map_set :: "('k \<times> 'v) list \<Rightarrow> 'k \<Rightarrow> 'v \<Rightarrow> ('k \<times> 'v) list" where
  "map_set [] k v = [(k, v)]"
| "map_set ((k', v') # m) k v = (if k' = k then (k, v) # m else (k', v') # map_set m k v)"

definition map_get_or :: "('k \<times> 'v) list \<Rightarrow> 'k \<Rightarrow> 'v \<Rightarrow> 'v" where
  "map_get_or m k d = (case map_of m k of None \<Rightarrow> d | Some v \<Rightarrow> v)"

definition set_add :: "'k list \<Rightarrow> 'k \<Rightarrow> 'k list" where
  "set_add s k = (if k \<in> set s then s else s @ [k])"

section \<open>Alpha structures (computeAlphaData)\<close>

text \<open>
  The two arrays of a triangulation the code reads.  Both hold integers: the library
  writes \<^verbatim>\<open>-1\<close> into \<^verbatim>\<open>halfedges\<close> for an edge without opposite and, for fewer
  than three distinct points, into \<^verbatim>\<open>triangles\<close> as well.
\<close>

record Delaunay =
  triangles :: "int list"
  halfedges :: "int list"

record AlphaData =
  alpha_triangles :: "TriangleIndex list"
  allEdges :: "EdgeIndex list"
  boundaryEdges :: "EdgeIndex list"

type_synonym alpha_state = "TriangleIndex list \<times> (edge_key \<times> nat) list"

definition count_edge :: "(edge_key \<times> nat) list \<Rightarrow> edge_key \<Rightarrow> (edge_key \<times> nat) list" where
  "count_edge edgeCount e = map_set edgeCount e (map_get_or edgeCount e 0 + 1)"

text \<open>
  One pass of the loop body at position \<open>index\<close>.  A missing index (\<^verbatim>\<open>undefined\<close>) or a
  repeated one skips the triangle; a triangle index that is no position of \<open>points\<close>
  makes \<^verbatim>\<open>p0.x\<close> throw, since the code does not test it.  The edge keys are built
  after the three points were read, so from positions of \<open>points\<close>.
\<close>

definition alphaBody ::
  "Point list \<Rightarrow> int list \<Rightarrow> number \<Rightarrow> nat \<Rightarrow> alpha_state \<Rightarrow> error + alpha_state" where
  "alphaBody points tris alpha index st =
     (case (array_get tris index, array_get tris (index + 1), array_get tris (index + 2)) of
        (Some i0, Some i1, Some i2) \<Rightarrow>
          if i0 = i1 \<or> i1 = i2 \<or> i2 = i0 then Inr st
          else
            (case (array_get_int points i0, array_get_int points i1, array_get_int points i2) of
               (Some p0, Some p1, Some p2) \<Rightarrow>
                 (let radius = circumradius (x_of p0) (y_of p0) (x_of p1) (y_of p1)
                                 (x_of p2) (y_of p2)
                  in if \<not> isFinite radius \<or> number_less alpha radius then Inr st
                     else
                       (let e1 = edgeKey (nat i0) (nat i1); e2 = edgeKey (nat i1) (nat i2);
                            e3 = edgeKey (nat i2) (nat i0)
                        in Inr (fst st @ [(i0, i1, i2)],
                                count_edge (count_edge (count_edge (snd st) e1) e2) e3)))
             | _ \<Rightarrow> Inl TypeError)
      | _ \<Rightarrow> Inr st)"

function alphaLoop ::
  "Point list \<Rightarrow> int list \<Rightarrow> number \<Rightarrow> nat \<Rightarrow> alpha_state \<Rightarrow> error + alpha_state" where
  "alphaLoop points tris alpha index st =
     (if index < length tris then
        (case alphaBody points tris alpha index st of
           Inl e \<Rightarrow> Inl e
         | Inr st' \<Rightarrow> alphaLoop points tris alpha (index + 3) st')
      else Inr st)"
  by pat_completeness auto
termination
  by (relation "measure (\<lambda>(points, tris, alpha, index, st). length tris - index)") auto

declare alphaLoop.simps [simp del]

definition computeAlphaData :: "Point list \<Rightarrow> Delaunay \<Rightarrow> number \<Rightarrow> error + AlphaData" where
  "computeAlphaData points delaunay alpha =
     (case alphaLoop points (triangles delaunay) alpha 0 ([], []) of
        Inl e \<Rightarrow> Inl e
      | Inr (alphaTriangles, edgeCount) \<Rightarrow>
          Inr \<lparr>alpha_triangles = alphaTriangles,
               allEdges = map (\<lambda>(key, count). decodeEdgeKey key) edgeCount,
               boundaryEdges =
                 map (\<lambda>(key, count). decodeEdgeKey key)
                   (filter (\<lambda>(key, count). count = 1) edgeCount)\<rparr>)"

text \<open>
  The vocabulary of the claims about alpha structures.  \<open>number_le a b\<close> is \<open>a \<le> b\<close>
  on numbers that may be infinite.  A triple of positions is degenerate when two of
  them coincide or the third lies on the line through the first two.  \<open>triangle_at\<close>
  reads the triangle stored at a position of the flat index array, and \<open>qualifies\<close> is
  the condition of the claims: the circumradius is finite and at most \<open>alpha\<close>.
\<close>

fun number_le :: "number \<Rightarrow> number \<Rightarrow> bool" where
  "number_le (Finite a) (Finite b) = (a \<le> b)"
| "number_le a PositiveInfinity = True"
| "number_le PositiveInfinity (Finite b) = False"

definition degenerate :: "real \<Rightarrow> real \<Rightarrow> real \<Rightarrow> real \<Rightarrow> real \<Rightarrow> real \<Rightarrow> bool" where
  "degenerate a_x a_y b_x b_y c_x c_y =
     ((a_x = b_x \<and> a_y = b_y) \<or> (b_x = c_x \<and> b_y = c_y) \<or> (c_x = a_x \<and> c_y = a_y)
      \<or> (\<exists>t. c_x = a_x + t * (b_x - a_x) \<and> c_y = a_y + t * (b_y - a_y)))"

definition point_circumradius :: "Point \<Rightarrow> Point \<Rightarrow> Point \<Rightarrow> number" where
  "point_circumradius p0 p1 p2 =
     circumradius (x_of p0) (y_of p0) (x_of p1) (y_of p1) (x_of p2) (y_of p2)"

definition triangle_at :: "int list \<Rightarrow> nat \<Rightarrow> TriangleIndex \<Rightarrow> bool" where
  "triangle_at tris k t =
     (3 * k + 2 < length tris \<and> t = (tris ! (3 * k), tris ! (3 * k + 1), tris ! (3 * k + 2)))"

definition qualifies :: "Point list \<Rightarrow> number \<Rightarrow> TriangleIndex \<Rightarrow> bool" where
  "qualifies points alpha t =
     (case t of (i0, i1, i2) \<Rightarrow>
        isFinite (point_circumradius (points ! nat i0) (points ! nat i1) (points ! nat i2))
        \<and> number_le (point_circumradius (points ! nat i0) (points ! nat i1) (points ! nat i2))
              alpha)"

text \<open>An index read from the triangulation that is a position of the point sequence.\<close>

definition index_in_range :: "Point list \<Rightarrow> int \<Rightarrow> bool" where
  "index_in_range points i = (0 \<le> i \<and> i < int (length points))"

text \<open>
  What one pass of the loop appends to \<^verbatim>\<open>alphaTriangles\<close> when it does not throw.
\<close>

definition kept :: "Point list \<Rightarrow> int list \<Rightarrow> number \<Rightarrow> nat \<Rightarrow> TriangleIndex list" where
  "kept points tris alpha index =
     (if index + 2 < length tris
         \<and> tris ! index \<noteq> tris ! (index + 1) \<and> tris ! (index + 1) \<noteq> tris ! (index + 2)
         \<and> tris ! (index + 2) \<noteq> tris ! index
         \<and> qualifies points alpha (tris ! index, tris ! (index + 1), tris ! (index + 2))
      then [(tris ! index, tris ! (index + 1), tris ! (index + 2))] else [])"

text \<open>A fixed input on which the theorems below are evaluated.\<close>

definition two_right_triangles :: "Point list" where
  "two_right_triangles =
     [\<lparr>id_of = 0, x_of = 0, y_of = 0\<rparr>, \<lparr>id_of = 1, x_of = 4, y_of = 0\<rparr>,
      \<lparr>id_of = 2, x_of = 0, y_of = 3\<rparr>, \<lparr>id_of = 3, x_of = 8, y_of = 0\<rparr>,
      \<lparr>id_of = 4, x_of = 0, y_of = 6\<rparr>]"


section \<open>Proximity graph filters (computeGabrielEdges, computeRelativeNeighborhoodEdges)\<close>

text \<open>
  \<^verbatim>\<open>(a.x + b.x) / 2\<close>: a sum that leaves the range of the doubles is an infinity, and
  so is its half (\<open>None\<close>).  \<open>offsetSquared\<close> is \<^verbatim>\<open>dx * dx + dy * dy\<close> for
  \<^verbatim>\<open>dx = pk.x - midX\<close> and \<^verbatim>\<open>dy = pk.y - midY\<close>: positive infinity when a midpoint
  coordinate is infinite or a difference, a square or the sum leaves the range.
\<close>

definition midpoint :: "real \<Rightarrow> real \<Rightarrow> real option" where
  "midpoint u v = (if overflows (u + v) then None else Some ((u + v) / 2))"

definition offsetSquared :: "real \<Rightarrow> real option \<Rightarrow> real \<Rightarrow> real option \<Rightarrow> number" where
  "offsetSquared px midX py midY =
     (case (midX, midY) of
        (Some mx, Some my) \<Rightarrow>
          (let dx = px - mx; dy = py - my
           in if overflows dx \<or> overflows dy \<or> overflows (dx * dx) \<or> overflows (dy * dy)
                 \<or> overflows (dx * dx + dy * dy)
              then PositiveInfinity
              else Finite (dx * dx + dy * dy))
      | _ \<Rightarrow> PositiveInfinity)"

text \<open>
  The inner loop over \<open>k = 0, \<dots>, points.length - 1\<close>, run on the list of these
  positions: \<^verbatim>\<open>continue\<close> moves to the next position, \<^verbatim>\<open>break\<close> ends the loop with
  the flag \<^verbatim>\<open>isGabriel\<close> false.  The result is the flag.
\<close>

fun gabrielScan ::
  "Point list \<Rightarrow> int \<Rightarrow> int \<Rightarrow> real option \<Rightarrow> real option \<Rightarrow> number \<Rightarrow> nat list \<Rightarrow> bool" where
  "gabrielScan points aIndex bIndex midX midY radiusSquared [] = True"
| "gabrielScan points aIndex bIndex midX midY radiusSquared (k # ks) =
     (if int k = aIndex \<or> int k = bIndex then
        gabrielScan points aIndex bIndex midX midY radiusSquared ks
      else
        (let pk = points ! k;
             inside = number_less (offsetSquared (x_of pk) midX (y_of pk) midY)
                        (number_minus radiusSquared EPSILON)
         in if inside then False
            else gabrielScan points aIndex bIndex midX midY radiusSquared ks))"

text \<open>
  The outer loop over the candidate edges, with the result list built so far.
  \<^verbatim>\<open>points[aIndex]\<close> of an index that is no position of \<open>points\<close> is \<^verbatim>\<open>undefined\<close>, and
  \<^verbatim>\<open>a.x + b.x\<close> then throws.
\<close>

fun gabrielLoop :: "Point list \<Rightarrow> EdgeIndex list \<Rightarrow> EdgeIndex list \<Rightarrow> error + EdgeIndex list" where
  "gabrielLoop points [] result = Inr result"
| "gabrielLoop points ((aIndex, bIndex) # rest) result =
     (case (array_get_int points aIndex, array_get_int points bIndex) of
        (Some a, Some b) \<Rightarrow>
          (let midX = midpoint (x_of a) (x_of b);
               midY = midpoint (y_of a) (y_of b);
               radiusSquared = number_divide (distanceSquared a b) 4;
               isGabriel = gabrielScan points aIndex bIndex midX midY radiusSquared
                             [0..<length points]
           in gabrielLoop points rest
                (if isGabriel then result @ [(aIndex, bIndex)] else result))
      | _ \<Rightarrow> Inl TypeError)"

definition computeGabrielEdges :: "Point list \<Rightarrow> EdgeIndex list \<Rightarrow> error + EdgeIndex list" where
  "computeGabrielEdges points candidateEdges = gabrielLoop points candidateEdges []"

fun rngScan :: "Point list \<Rightarrow> Point \<Rightarrow> Point \<Rightarrow> int \<Rightarrow> int \<Rightarrow> number \<Rightarrow> nat list \<Rightarrow> bool" where
  "rngScan points a b aIndex bIndex ab [] = True"
| "rngScan points a b aIndex bIndex ab (k # ks) =
     (if int k = aIndex \<or> int k = bIndex then rngScan points a b aIndex bIndex ab ks
      else
        (let ak = distance a (points ! k);
             bk = distance b (points ! k)
         in if number_less (number_max ak bk) (number_minus ab EPSILON) then False
            else rngScan points a b aIndex bIndex ab ks))"

fun rngLoop :: "Point list \<Rightarrow> EdgeIndex list \<Rightarrow> EdgeIndex list \<Rightarrow> error + EdgeIndex list" where
  "rngLoop points [] result = Inr result"
| "rngLoop points ((aIndex, bIndex) # rest) result =
     (case (array_get_int points aIndex, array_get_int points bIndex) of
        (Some a, Some b) \<Rightarrow>
          (let ab = distance a b;
               isRelativeNeighbor = rngScan points a b aIndex bIndex ab [0..<length points]
           in rngLoop points rest
                (if isRelativeNeighbor then result @ [(aIndex, bIndex)] else result))
      | _ \<Rightarrow> Inl TypeError)"

definition computeRelativeNeighborhoodEdges ::
  "Point list \<Rightarrow> EdgeIndex list \<Rightarrow> error + EdgeIndex list" where
  "computeRelativeNeighborhoodEdges points candidateEdges = rngLoop points candidateEdges []"

text \<open>
  The vocabulary of the claims about the two filters.  A third point of the edge
  \<open>(aIndex, bIndex)\<close> is a position of \<open>points\<close> other than the two indices.
  \<open>center_distanceSquared\<close> is what the Gabriel filter computes for the squared
  distance of a point to the midpoint of the segment, \<open>gabriel_violation\<close> the test it
  applies to a third point and \<open>rng_violation\<close> the one the relative-neighbourhood
  filter applies.
\<close>

definition third_point :: "Point list \<Rightarrow> EdgeIndex \<Rightarrow> nat \<Rightarrow> bool" where
  "third_point points e k = (k < length points \<and> int k \<noteq> fst e \<and> int k \<noteq> snd e)"

definition center_distanceSquared :: "Point \<Rightarrow> Point \<Rightarrow> Point \<Rightarrow> number" where
  "center_distanceSquared a b p =
     offsetSquared (x_of p) (midpoint (x_of a) (x_of b)) (y_of p) (midpoint (y_of a) (y_of b))"

definition gabriel_violation :: "Point list \<Rightarrow> EdgeIndex \<Rightarrow> nat \<Rightarrow> bool" where
  "gabriel_violation points e k =
     number_less
       (center_distanceSquared (points ! nat (fst e)) (points ! nat (snd e)) (points ! k))
       (number_minus
          (number_divide (distanceSquared (points ! nat (fst e)) (points ! nat (snd e))) 4)
          EPSILON)"

definition rng_violation :: "Point list \<Rightarrow> EdgeIndex \<Rightarrow> nat \<Rightarrow> bool" where
  "rng_violation points e k =
     number_less
       (number_max (distance (points ! nat (fst e)) (points ! k))
                   (distance (points ! nat (snd e)) (points ! k)))
       (number_minus (distance (points ! nat (fst e)) (points ! nat (snd e))) EPSILON)"

definition edge_in_range :: "Point list \<Rightarrow> EdgeIndex \<Rightarrow> bool" where
  "edge_in_range points e =
     (0 \<le> fst e \<and> fst e < int (length points) \<and> 0 \<le> snd e \<and> snd e < int (length points))"


definition rng_keeps :: "Point list \<Rightarrow> EdgeIndex \<Rightarrow> bool" where
  "rng_keeps points e = (\<forall>k. third_point points e k \<longrightarrow> \<not> rng_violation points e k)"

text \<open>
  The circle of the Gabriel test as geometry, in exact terms: the squared length of
  the segment \<open>ab\<close> and the squared distance of a point \<open>p\<close> to its midpoint.  A point
  is strictly inside the circle on \<open>ab\<close> as diameter when the second is below a quarter
  of the first, and on the circle when they are equal.  \<open>within_range a b\<close> says that
  the filter computes the midpoint and the squared length of \<open>ab\<close> without leaving the
  range of the doubles.
\<close>

definition squared_length :: "Point \<Rightarrow> Point \<Rightarrow> real" where
  "squared_length a b =
     (x_of a - x_of b) * (x_of a - x_of b) + (y_of a - y_of b) * (y_of a - y_of b)"

definition squared_to_midpoint :: "Point \<Rightarrow> Point \<Rightarrow> Point \<Rightarrow> real" where
  "squared_to_midpoint a b p =
     (x_of p - (x_of a + x_of b) / 2) * (x_of p - (x_of a + x_of b) / 2)
     + (y_of p - (y_of a + y_of b) / 2) * (y_of p - (y_of a + y_of b) / 2)"


text \<open>
  The test of the Gabriel filter with \<^verbatim>\<open>EPSILON\<close> as a tolerance on a distance, the way
  the relative-neighbourhood filter uses it: a point counts as inside the circle when
  its distance to the midpoint is below the radius by more than \<^verbatim>\<open>EPSILON\<close>.  The code
  does not apply this test; it is stated here to compare the two filters.
\<close>

definition gabriel_violation_by_distance :: "Point list \<Rightarrow> EdgeIndex \<Rightarrow> nat \<Rightarrow> bool" where
  "gabriel_violation_by_distance points e k =
     (sqrt (squared_to_midpoint (points ! nat (fst e)) (points ! nat (snd e)) (points ! k))
        < sqrt (squared_length (points ! nat (fst e)) (points ! nat (snd e))) / 2 - EPSILON)"



definition near_miss :: "Point list" where
  "near_miss =
     [\<lparr>id_of = 0, x_of = 0, y_of = 0\<rparr>, \<lparr>id_of = 1, x_of = 2, y_of = 0\<rparr>,
      \<lparr>id_of = 2, x_of = 1 / 1000000, y_of = 1 / 1000000\<rparr>]"

section \<open>Nearest-neighbour edges (computeNearestNeighborEdges)\<close>

text \<open>
  The inner loop over \<open>j\<close>, run on the list of positions, with the pair
  \<^verbatim>\<open>(nearestIndex, nearestDistance)\<close> as state (initially \<open>-1\<close> and positive infinity).
  A squared distance that is itself positive infinity is not below the initial one.
\<close>

fun nearestScan :: "Point list \<Rightarrow> nat \<Rightarrow> nat list \<Rightarrow> int \<times> number \<Rightarrow> int \<times> number" where
  "nearestScan points i [] st = st"
| "nearestScan points i (j # js) (nearestIndex, nearestDistance) =
     (if i = j then nearestScan points i js (nearestIndex, nearestDistance)
      else
        (let d = distanceSquared (points ! i) (points ! j)
         in if number_less d nearestDistance
            then nearestScan points i js (int j, d)
            else nearestScan points i js (nearestIndex, nearestDistance)))"

text \<open>The outer loop over \<open>i\<close>, with the \<^verbatim>\<open>Set\<close> of edge keys as state.\<close>

fun nearestLoop :: "Point list \<Rightarrow> nat list \<Rightarrow> edge_key list \<Rightarrow> edge_key list" where
  "nearestLoop points [] edges = edges"
| "nearestLoop points (i # rest) edges =
     (let nearestIndex = fst (nearestScan points i [0..<length points] (- 1, PositiveInfinity))
      in nearestLoop points rest
           (if nearestIndex \<ge> 0 then set_add edges (edgeKey i (nat nearestIndex)) else edges))"

definition computeNearestNeighborEdges :: "Point list \<Rightarrow> EdgeIndex list" where
  "computeNearestNeighborEdges points =
     (if length points < 2 then []
      else map decodeEdgeKey (nearestLoop points [0..<length points] []))"

text \<open>
  The vocabulary of the claim about nearest neighbours, in terms of the squared
  distances the code computes: \<open>j\<close> is the first nearest neighbour of \<open>i\<close> among the
  positions below \<open>m\<close> when its squared distance from \<open>i\<close> is finite, no other position
  below \<open>m\<close> is nearer to \<open>i\<close> and every earlier one is strictly farther.  A position
  has a neighbour in range when its squared distance to some other position is finite.
  The canonical edge of two positions has the smaller one first.
\<close>

definition first_nearest_below :: "Point list \<Rightarrow> nat \<Rightarrow> nat \<Rightarrow> nat \<Rightarrow> bool" where
  "first_nearest_below points i m j =
     (j < m \<and> j \<noteq> i
      \<and> isFinite (distanceSquared (points ! i) (points ! j))
      \<and> (\<forall>k < m. k \<noteq> i \<longrightarrow>
            number_le (distanceSquared (points ! i) (points ! j))
                      (distanceSquared (points ! i) (points ! k)))
      \<and> (\<forall>k < j. k \<noteq> i \<longrightarrow>
            number_less (distanceSquared (points ! i) (points ! j))
                        (distanceSquared (points ! i) (points ! k))))"

definition first_nearest :: "Point list \<Rightarrow> nat \<Rightarrow> nat \<Rightarrow> bool" where
  "first_nearest points i j = first_nearest_below points i (length points) j"

definition neighbour_in_range_below :: "Point list \<Rightarrow> nat \<Rightarrow> nat \<Rightarrow> bool" where
  "neighbour_in_range_below points i m =
     (\<exists>k < m. k \<noteq> i \<and> isFinite (distanceSquared (points ! i) (points ! k)))"

definition neighbour_in_range :: "Point list \<Rightarrow> nat \<Rightarrow> bool" where
  "neighbour_in_range points i = neighbour_in_range_below points i (length points)"

definition canonical_edge :: "nat \<Rightarrow> nat \<Rightarrow> EdgeIndex" where
  "canonical_edge a b = (int (min a b), int (max a b))"

text \<open>The value of \<^verbatim>\<open>nearestIndex\<close> after the inner loop for position \<open>i\<close>.\<close>

definition nearest_index :: "Point list \<Rightarrow> nat \<Rightarrow> int" where
  "nearest_index points i = fst (nearestScan points i [0..<length points] (- 1, PositiveInfinity))"

text \<open>
  Fixed inputs: one with a tie (positions 1 and 2 are equally near to position 0), and
  two points with finite coordinates that are \<open>2\<^sup>5\<^sup>1\<^sup>2\<close> apart.
\<close>

definition tie_points :: "Point list" where
  "tie_points =
     [\<lparr>id_of = 0, x_of = 1, y_of = 0\<rparr>, \<lparr>id_of = 1, x_of = 0, y_of = 0\<rparr>,
      \<lparr>id_of = 2, x_of = 2, y_of = 0\<rparr>, \<lparr>id_of = 3, x_of = - (1 / 2), y_of = 0\<rparr>]"

definition far_apart :: "Point list" where
  "far_apart =
     [\<lparr>id_of = 0, x_of = 0, y_of = 0\<rparr>, \<lparr>id_of = 1, x_of = 2 ^ 512, y_of = 0\<rparr>]"

section \<open>Minimum spanning tree (computeMinimumSpanningTreeEdges)\<close>

text \<open>
  The three arrays of Prim's algorithm and the edge list built so far.
\<close>

record mst_state =
  visited :: "bool list"
  distances :: "number list"
  parent :: "int list"
  mst_edges :: "EdgeIndex list"

text \<open>
  The state before the main loop: position \<open>0\<close> is visited, and every other position
  \<open>i\<close> has its distance to position \<open>0\<close> and the parent \<open>0\<close>.
\<close>

fun mstInitLoop :: "Point list \<Rightarrow> nat list \<Rightarrow> mst_state \<Rightarrow> mst_state" where
  "mstInitLoop points [] s = s"
| "mstInitLoop points (i # rest) s =
     mstInitLoop points rest
       (s\<lparr>distances := (distances s)[i := distance (points ! 0) (points ! i)],
          parent := (parent s)[i := 0]\<rparr>)"

definition mstInit :: "Point list \<Rightarrow> mst_state" where
  "mstInit points =
     (let count = length points
      in mstInitLoop points [1..<count]
           \<lparr>visited = (replicate count False)[0 := True],
            distances = replicate count PositiveInfinity,
            parent = replicate count (- 1),
            mst_edges = []\<rparr>)"

text \<open>
  The scan for the nearest unvisited position, with \<^verbatim>\<open>(bestIndex, bestDistance)\<close> as
  state (initially \<open>-1\<close> and positive infinity).
\<close>

fun findBest :: "mst_state \<Rightarrow> nat list \<Rightarrow> int \<times> number \<Rightarrow> int \<times> number" where
  "findBest s [] st = st"
| "findBest s (j # js) (bestIndex, bestDistance) =
     (if visited s ! j then findBest s js (bestIndex, bestDistance)
      else if number_less (distances s ! j) bestDistance
           then findBest s js (int j, distances s ! j)
           else findBest s js (bestIndex, bestDistance))"

text \<open>The update of the distances of the unvisited positions from the new tree vertex.\<close>

fun relax :: "Point list \<Rightarrow> nat \<Rightarrow> nat list \<Rightarrow> mst_state \<Rightarrow> mst_state" where
  "relax points bestIndex [] s = s"
| "relax points bestIndex (j # js) s =
     (if visited s ! j then relax points bestIndex js s
      else
        (let d = distance (points ! bestIndex) (points ! j)
         in if number_less d (distances s ! j)
            then relax points bestIndex js
                   (s\<lparr>distances := (distances s)[j := d],
                      parent := (parent s)[j := int bestIndex]\<rparr>)
            else relax points bestIndex js s))"

text \<open>
  One pass of the main loop: \<open>None\<close> when the scan finds no position (\<^verbatim>\<open>break\<close>),
  otherwise the state after the pass.
\<close>

definition mstBody :: "Point list \<Rightarrow> mst_state \<Rightarrow> mst_state option" where
  "mstBody points s =
     (let count = length points;
          bestIndex = fst (findBest s [0..<count] (- 1, PositiveInfinity))
      in if bestIndex = - 1 then None
         else
           (let s1 = s\<lparr>visited := (visited s)[nat bestIndex := True]\<rparr>;
                parentIndex = parent s1 ! nat bestIndex;
                s2 = (if parentIndex \<ge> 0
                      then s1\<lparr>mst_edges := mst_edges s1
                                @ [(min bestIndex parentIndex, max bestIndex parentIndex)]\<rparr>
                      else s1)
            in Some (relax points (nat bestIndex) [0..<count] s2)))"

text \<open>
  The main loop, run on the list of the values of \<^verbatim>\<open>iteration\<close>; \<^verbatim>\<open>break\<close> returns the
  state as it is.
\<close>

fun mstLoop :: "Point list \<Rightarrow> nat list \<Rightarrow> mst_state \<Rightarrow> mst_state" where
  "mstLoop points [] s = s"
| "mstLoop points (iteration # rest) s =
     (case mstBody points s of None \<Rightarrow> s | Some s' \<Rightarrow> mstLoop points rest s')"

definition computeMinimumSpanningTreeEdges :: "Point list \<Rightarrow> EdgeIndex list" where
  "computeMinimumSpanningTreeEdges points =
     (let count = length points
      in if count < 2 then []
         else mst_edges (mstLoop points [1..<count] (mstInit points)))"

text \<open>
  Fixed inputs on which the theorems below are evaluated: the corners of the unit
  square followed by its centre, three points on a line, and two points with finite
  coordinates that are \<open>2\<^sup>1\<^sup>0\<^sup>2\<^sup>4\<close> apart.
\<close>

definition unit_square_and_center :: "Point list" where
  "unit_square_and_center =
     [\<lparr>id_of = 0, x_of = 0, y_of = 0\<rparr>, \<lparr>id_of = 1, x_of = 1, y_of = 0\<rparr>,
      \<lparr>id_of = 2, x_of = 1, y_of = 1\<rparr>, \<lparr>id_of = 3, x_of = 0, y_of = 1\<rparr>,
      \<lparr>id_of = 4, x_of = 1 / 2, y_of = 1 / 2\<rparr>]"

text \<open>
  The Euclidean length of an edge between two positions and the total length of an
  edge list, and the distance the code computes between the two ends of an edge.
\<close>

definition edge_length :: "Point list \<Rightarrow> EdgeIndex \<Rightarrow> real" where
  "edge_length points e =
     hypot (x_of (points ! nat (fst e)) - x_of (points ! nat (snd e)))
           (y_of (points ! nat (fst e)) - y_of (points ! nat (snd e)))"

definition edge_distance :: "Point list \<Rightarrow> EdgeIndex \<Rightarrow> number" where
  "edge_distance points e = distance (points ! nat (fst e)) (points ! nat (snd e))"

text \<open>
  The vocabulary of the claims about the spanning tree.  The edges are undirected:
  two points are adjacent when the list has an edge between them in either order, and
  connected when a chain of adjacent points leads from one to the other.  A list of
  edges is acyclic when no edge occurs twice and no edge joins two points that the
  other edges already connect (so every edge is a bridge; a self-loop, a doubled edge
  and a longer cycle each contain an edge that is not).
\<close>

definition adjacent :: "EdgeIndex list \<Rightarrow> (int \<times> int) set" where
  "adjacent es = set es \<union> (set es)\<inverse>"

definition connects :: "EdgeIndex list \<Rightarrow> int \<Rightarrow> int \<Rightarrow> bool" where
  "connects es u v = ((u, v) \<in> (adjacent es)\<^sup>*)"

definition acyclic_graph :: "EdgeIndex list \<Rightarrow> bool" where
  "acyclic_graph es =
     (distinct es \<and> (\<forall>e \<in> set es. \<not> connects (remove1 e es) (fst e) (snd e)))"

text \<open>
  \<open>first_in_range\<close> says that the distance the code computes from position \<open>0\<close> to
  every position is finite.

  The invariant of the main loop.  The visited positions are the vertices of the tree
  built so far: every unvisited position has a finite distance and a visited parent,
  every edge joins two visited positions (smaller index first), every visited position
  is connected to position \<open>0\<close>, the edges are acyclic, and there is one edge less than
  visited positions.
\<close>

definition first_in_range :: "Point list \<Rightarrow> bool" where
  "first_in_range points =
     (\<forall>j < length points. isFinite (distance (points ! 0) (points ! j)))"

definition visited_set :: "mst_state \<Rightarrow> nat set" where
  "visited_set s = {j. j < length (visited s) \<and> visited s ! j}"

definition mst_inv :: "Point list \<Rightarrow> mst_state \<Rightarrow> bool" where
  "mst_inv points s =
     (length (visited s) = length points \<and> length (distances s) = length points
      \<and> length (parent s) = length points
      \<and> 0 \<in> visited_set s
      \<and> (\<forall>j < length points. \<not> visited s ! j \<longrightarrow>
            isFinite (distances s ! j) \<and> (\<exists>p \<in> visited_set s. parent s ! j = int p))
      \<and> (\<forall>(a, b) \<in> set (mst_edges s).
            0 \<le> a \<and> a < b \<and> nat a \<in> visited_set s \<and> nat b \<in> visited_set s)
      \<and> (\<forall>j \<in> visited_set s. connects (mst_edges s) 0 (int j))
      \<and> acyclic_graph (mst_edges s)
      \<and> length (mst_edges s) + 1 = card (visited_set s))"

definition total_length :: "Point list \<Rightarrow> EdgeIndex list \<Rightarrow> real" where
  "total_length points es = sum_list (map (edge_length points) es)"

definition three_on_a_line :: "Point list" where
  "three_on_a_line =
     [\<lparr>id_of = 0, x_of = 0, y_of = 0\<rparr>, \<lparr>id_of = 1, x_of = 3, y_of = 0\<rparr>,
      \<lparr>id_of = 2, x_of = 1, y_of = 0\<rparr>]"

definition opposite_ends :: "Point list" where
  "opposite_ends =
     [\<lparr>id_of = 0, x_of = - (2 ^ 1023), y_of = 0\<rparr>, \<lparr>id_of = 1, x_of = 2 ^ 1023, y_of = 0\<rparr>]"

section \<open>The orchestrator (collectDelaunayEdges, computeDerivedStructures)\<close>

text \<open>
  The members of the union type \<^verbatim>\<open>GraphMode\<close> as \<^verbatim>\<open>types.ts\<close> declares it.  At run time
  a mode is a string.
\<close>

definition GraphMode :: "string list" where
  "GraphMode =
     [''voronoi'', ''alpha-shape'', ''alpha-complex'', ''nn-crust'', ''gabriel'', ''rng'',
      ''mst'']"

text \<open>The next half-edge slot of the same triangle.\<close>

definition nextHalfedge :: "nat \<Rightarrow> nat" where
  "nextHalfedge index = (if index mod 3 = 2 then index - 2 else index + 1)"

text \<open>
  The loop of \<^verbatim>\<open>collectDelaunayEdges\<close> over the half-edge slots, with the set of keys
  seen and the edge list as state.  \<^verbatim>\<open>p === q\<close> also holds when both reads are
  \<^verbatim>\<open>undefined\<close>.  An entry \<^verbatim>\<open>-1\<close> of the triangulation is an index like any other
  here: the pair pushed then starts with \<open>-1\<close>.
\<close>

fun collectLoop ::
  "Delaunay \<Rightarrow> nat list \<Rightarrow> string list \<times> EdgeIndex list \<Rightarrow> string list \<times> EdgeIndex list" where
  "collectLoop delaunay [] st = st"
| "collectLoop delaunay (edgeIndex # rest) (seen, es) =
     (let opposite = halfedges delaunay ! edgeIndex
      in if opposite \<ge> 0 \<and> opposite < int edgeIndex then collectLoop delaunay rest (seen, es)
         else
           (case (array_get (triangles delaunay) edgeIndex,
                  array_get (triangles delaunay) (nextHalfedge edgeIndex)) of
              (Some p, Some q) \<Rightarrow>
                if p = q then collectLoop delaunay rest (seen, es)
                else
                  (let key = edgeKey_string p q
                   in if key \<in> set seen then collectLoop delaunay rest (seen, es)
                      else collectLoop delaunay rest
                             (set_add seen key, es @ [(min p q, max p q)]))
            | _ \<Rightarrow> collectLoop delaunay rest (seen, es)))"

definition collectDelaunayEdges :: "Delaunay \<Rightarrow> EdgeIndex list" where
  "collectDelaunayEdges delaunay =
     snd (collectLoop delaunay [0..<length (halfedges delaunay)] ([], []))"

text \<open>\<^verbatim>\<open>Number.MAX_VALUE\<close>, the largest finite double.\<close>

definition MAX_VALUE :: real where
  "MAX_VALUE = 2 ^ 1024 - 2 ^ 971"

text \<open>
  The brute-force Voronoi raster.  The scan over the seeds keeps
  \<^verbatim>\<open>(closestIndex, closestDistance)\<close>; the two pixel loops (\<open>y\<close> outside, \<open>x\<close> inside)
  run on the list of pixels in that order, and \<^verbatim>\<open>cells[closestIndex].push\<close> throws when
  there is no such cell (an empty point sequence).
\<close>

fun closestScan :: "Point list \<Rightarrow> real \<Rightarrow> real \<Rightarrow> nat list \<Rightarrow> nat \<times> real \<Rightarrow> nat \<times> real" where
  "closestScan points x y [] st = st"
| "closestScan points x y (i # rest) (closestIndex, closestDistance) =
     (let dx = x - x_of (points ! i);
          dy = y - y_of (points ! i);
          distSquared = dx * dx + dy * dy
      in if distSquared < closestDistance then closestScan points x y rest (i, distSquared)
         else closestScan points x y rest (closestIndex, closestDistance))"

fun bruteForceLoop :: "Point list \<Rightarrow> (nat \<times> nat) list \<Rightarrow> polygon list \<Rightarrow> error + polygon list" where
  "bruteForceLoop points [] cells = Inr cells"
| "bruteForceLoop points ((x, y) # rest) cells =
     (let closestIndex = fst (closestScan points (real x) (real y) [0..<length points]
                                (0, MAX_VALUE))
      in case array_get cells closestIndex of
           None \<Rightarrow> Inl TypeError
         | Some cell \<Rightarrow>
             bruteForceLoop points rest (cells[closestIndex := cell @ [(real x, real y)]]))"

definition pixels :: "real \<Rightarrow> real \<Rightarrow> (nat \<times> nat) list" where
  "pixels width height =
     concat (map (\<lambda>y. map (\<lambda>x. (x, y)) [0..<nat \<lceil>width\<rceil>]) [0..<nat \<lceil>height\<rceil>])"

definition computeVoronoiBruteForce :: "Point list \<Rightarrow> real \<Rightarrow> real \<Rightarrow> error + polygon list" where
  "computeVoronoiBruteForce points width height =
     bruteForceLoop points (pixels width height) (map (\<lambda>p. []) points)"

text \<open>The result of the orchestrator.\<close>

record DerivedStructures =
  voronoiCells :: "polygon list"
  graphEdges :: "EdgeIndex list"
  alphaTriangles :: "TriangleIndex list"

text \<open>
  The triangulation is the work of the external library \<^verbatim>\<open>d3-delaunay\<close>.  What it
  returns for the points and the bounds is a parameter of the model: the triangulation
  \<^verbatim>\<open>Delaunay.from(points, \<dots>)\<close> and, for each position, the clipped cell polygon
  \<^verbatim>\<open>voronoi.cellPolygon(index)\<close> (\<open>None\<close> for \<^verbatim>\<open>null\<close>).
\<close>

record d3_delaunay =
  delaunay_from :: Delaunay
  cellPolygon :: "nat \<Rightarrow> polygon option"

text \<open>
  The orchestrator.  The parameter \<open>mode\<close> is compared with seven string literals,
  \<^verbatim>\<open>"voronoi-bruteforce"\<close> and the declared ones but \<^verbatim>\<open>"mst"\<close>; any other value reaches
  the last \<^verbatim>\<open>return\<close>, the minimum spanning tree.
\<close>

definition computeDerivedStructures ::
  "d3_delaunay \<Rightarrow> Point list \<Rightarrow> real \<Rightarrow> real \<Rightarrow> number \<Rightarrow> string \<Rightarrow> error + DerivedStructures" where
  "computeDerivedStructures lib points width height alpha mode =
     (if length points = 0 then
        Inr \<lparr>voronoiCells = [], graphEdges = [], alphaTriangles = []\<rparr>
      else if mode = ''voronoi-bruteforce'' then
        (case computeVoronoiBruteForce points width height of
           Inl e \<Rightarrow> Inl e
         | Inr cells \<Rightarrow> Inr \<lparr>voronoiCells = cells, graphEdges = [], alphaTriangles = []\<rparr>)
      else
        (let delaunay = delaunay_from lib;
             cells = map (\<lambda>index. polygonWithoutDuplicate
                                    (case cellPolygon lib index of None \<Rightarrow> [] | Some p \<Rightarrow> p))
                       [0..<length points]
         in if mode = ''voronoi'' then
              Inr \<lparr>voronoiCells = cells, graphEdges = [], alphaTriangles = []\<rparr>
            else
              (let candidateEdges = collectDelaunayEdges delaunay
               in if mode = ''alpha-shape'' \<or> mode = ''alpha-complex'' then
                    (case computeAlphaData points delaunay alpha of
                       Inl e \<Rightarrow> Inl e
                     | Inr alphaData \<Rightarrow>
                         Inr \<lparr>voronoiCells = cells,
                              graphEdges = (if mode = ''alpha-shape'' then boundaryEdges alphaData
                                            else allEdges alphaData),
                              alphaTriangles = (if mode = ''alpha-complex''
                                                then alpha_triangles alphaData else [])\<rparr>)
                  else if mode = ''nn-crust'' then
                    Inr \<lparr>voronoiCells = cells,
                         graphEdges = computeNearestNeighborEdges points,
                         alphaTriangles = []\<rparr>
                  else if mode = ''gabriel'' then
                    (case computeGabrielEdges points candidateEdges of
                       Inl e \<Rightarrow> Inl e
                     | Inr es \<Rightarrow>
                         Inr \<lparr>voronoiCells = cells, graphEdges = es, alphaTriangles = []\<rparr>)
                  else if mode = ''rng'' then
                    (case computeRelativeNeighborhoodEdges points candidateEdges of
                       Inl e \<Rightarrow> Inl e
                     | Inr es \<Rightarrow>
                         Inr \<lparr>voronoiCells = cells, graphEdges = es, alphaTriangles = []\<rparr>)
                  else
                    Inr \<lparr>voronoiCells = cells,
                         graphEdges = computeMinimumSpanningTreeEdges points,
                         alphaTriangles = []\<rparr>)))"

text \<open>
  A fixed input on which the theorem below is evaluated: a single point, with what
  \<^verbatim>\<open>d3-delaunay\<close> gives for it and the bounds \<open>[0, 0, 2, 1]\<close>.  The triangulation of one
  point is the single slot triple \<open>[0, -1, -1]\<close> with no opposite half-edges, and its
  cell is the bounding rectangle, closed by a repetition of its first vertex.
\<close>

definition one_point :: "Point list" where
  "one_point = [\<lparr>id_of = 0, x_of = 0, y_of = 0\<rparr>]"

definition one_point_library :: d3_delaunay where
  "one_point_library =
     \<lparr>delaunay_from = \<lparr>triangles = [0, - 1, - 1], halfedges = [- 1, - 1, - 1]\<rparr>,
      cellPolygon = (\<lambda>index. if index = 0 then Some [(2, 0), (2, 1), (0, 1), (0, 0), (2, 0)]
                              else None)\<rparr>"

text \<open>
  The vocabulary of the claim about the orchestrator: the cell polygons every mode but
  the brute-force one returns, and the result record built from what a builder returns
  when it does not throw.
\<close>

definition cell_polygons :: "d3_delaunay \<Rightarrow> Point list \<Rightarrow> polygon list" where
  "cell_polygons lib points =
     map (\<lambda>index. polygonWithoutDuplicate
                      (case cellPolygon lib index of None \<Rightarrow> [] | Some p \<Rightarrow> p))
       [0..<length points]"

definition packaged :: "('a \<Rightarrow> DerivedStructures) \<Rightarrow> error + 'a \<Rightarrow> error + DerivedStructures" where
  "packaged f r = (case r of Inl e \<Rightarrow> Inl e | Inr v \<Rightarrow> Inr (f v))"

section \<open>Rounding to doubles (triangleArea)\<close>

text \<open>
  An arithmetic operation of the code returns the double nearest to the exact result,
  a tie going to the double whose significand is even.  Around a result \<open>x\<close> in the
  normal range, \<open>2\<^sup>e \<le> |x| < 2\<^sup>e\<^sup>+\<^sup>1\<close>, the doubles are \<open>2\<^sup>e\<^sup>-\<^sup>5\<^sup>2\<close> apart; \<open>round_double\<close>
  is the rounding for such results and for zero (it models neither the subnormal
  doubles nor overflow, which no value below comes near).
\<close>

definition binary_exponent :: "real \<Rightarrow> int" where
  "binary_exponent x = \<lfloor>log 2 \<bar>x\<bar>\<rfloor>"

definition spacing :: "real \<Rightarrow> real" where
  "spacing x = 2 powi (binary_exponent x - 52)"

definition round_half_even :: "real \<Rightarrow> int" where
  "round_half_even q =
     (let f = \<lfloor>q\<rfloor>; r = q - of_int f
      in if r < 1 / 2 then f else if 1 / 2 < r then f + 1 else if even f then f else f + 1)"

definition round_double :: "real \<Rightarrow> real" where
  "round_double x = (if x = 0 then 0 else of_int (round_half_even (x / spacing x)) * spacing x)"

text \<open>
  \<^verbatim>\<open>triangleArea\<close> as the code computes it on doubles: each difference, product and sum
  is rounded, the sum of the three products is taken from the left, \<^verbatim>\<open>Math.abs\<close> is
  exact.
\<close>

definition triangleArea_double :: "real \<Rightarrow> real \<Rightarrow> real \<Rightarrow> real \<Rightarrow> real \<Rightarrow> real \<Rightarrow> real" where
  "triangleArea_double a_x a_y b_x b_y c_x c_y =
     (let first = round_double (a_x * round_double (b_y - c_y));
          second = round_double (b_x * round_double (c_y - a_y));
          third = round_double (c_x * round_double (a_y - b_y));
          cross = round_double (round_double (first + second) + third)
      in round_double (\<bar>cross\<bar> * (1 / 2)))"

text \<open>The doubles that the literals \<^verbatim>\<open>0.1\<close>, \<^verbatim>\<open>0.2\<close> and \<^verbatim>\<open>0.3\<close> denote.\<close>

definition double_0_1 :: real where
  "double_0_1 = 3602879701896397 / 2 ^ 55"

definition double_0_2 :: real where
  "double_0_2 = 3602879701896397 / 2 ^ 54"

definition double_0_3 :: real where
  "double_0_3 = 5404319552844595 / 2 ^ 54"

section \<open>The edge key as a string\<close>

lemma digit_cases:
  assumes "(d::nat) < 10"
  obtains "d = 0" | "d = 1" | "d = 2" | "d = 3" | "d = 4" | "d = 5" | "d = 6" | "d = 7"
    | "d = 8" | "d = (9::nat)"
proof -
  have "d = 0 \<or> d = 1 \<or> d = 2 \<or> d = 3 \<or> d = 4 \<or> d = 5 \<or> d = 6 \<or> d = 7 \<or> d = 8 \<or> d = 9"
    using assms by presburger
  then show thesis
    using that by blast
qed

lemma digit_value_digit_char: "d < 10 \<Longrightarrow> digit_value (digit_char d) = d"
  by (erule digit_cases) (simp_all add: digit_value_def digit_char_def)

lemma digit_char_not_dash: "d < 10 \<Longrightarrow> digit_char d \<noteq> CHR ''-''"
  by (erule digit_cases) (simp_all add: digit_char_def)

lemma decimal_no_dash: "CHR ''-'' \<notin> set (decimal n)"
proof (induction n rule: decimal.induct)
  case (1 n)
  show ?case
  proof (cases "n < 10")
    case True
    then show ?thesis
      using digit_char_not_dash [of n] by (auto simp: decimal.simps [of n])
  next
    case False
    have "n mod 10 < 10" by simp
    then show ?thesis
      using False "1.IH" digit_char_not_dash [of "n mod 10"]
      by (auto simp: decimal.simps [of n])
  qed
qed

lemma parse_decimal_snoc: "parse_decimal (s @ [c]) = 10 * parse_decimal s + digit_value c"
  by (simp add: parse_decimal_def)

lemma parse_decimal_decimal: "parse_decimal (decimal n) = n"
proof (induction n rule: decimal.induct)
  case (1 n)
  show ?case
  proof (cases "n < 10")
    case True
    then show ?thesis
      by (simp add: decimal.simps [of n] parse_decimal_def digit_value_digit_char)
  next
    case False
    then show ?thesis
      using "1.IH" by (simp add: decimal.simps [of n] parse_decimal_snoc digit_value_digit_char)
  qed
qed

lemma key_parse_key_string: "key_parse (key_string key) = key"
proof -
  obtain a b where key: "key = (a, b)"
    by (cases key)
  have no_dash: "x \<noteq> CHR ''-''" if "x \<in> set (decimal a)" for x
    using that decimal_no_dash [of a] by blast
  have "takeWhile (\<lambda>c. c \<noteq> CHR ''-'') (decimal a @ CHR ''-'' # decimal b)
      = decimal a @ takeWhile (\<lambda>c. c \<noteq> CHR ''-'') (CHR ''-'' # decimal b)"
    by (rule takeWhile_append2) (rule no_dash)
  then have first: "takeWhile (\<lambda>c. c \<noteq> CHR ''-'') (decimal a @ CHR ''-'' # decimal b) = decimal a"
    by simp
  have "dropWhile (\<lambda>c. c \<noteq> CHR ''-'') (decimal a @ CHR ''-'' # decimal b)
      = dropWhile (\<lambda>c. c \<noteq> CHR ''-'') (CHR ''-'' # decimal b)"
    by (rule dropWhile_append2) (rule no_dash)
  then have second: "dropWhile (\<lambda>c. c \<noteq> CHR ''-'') (decimal a @ CHR ''-'' # decimal b)
      = CHR ''-'' # decimal b"
    by simp
  show ?thesis
    by (simp add: key key_string_def key_parse_def first second parse_decimal_decimal)
qed

lemma key_string_inj:
  assumes "key_string k = key_string k'"
  shows "k = k'"
proof -
  have "key_parse (key_string k) = key_parse (key_string k')"
    using assms by simp
  then show ?thesis
    by (simp add: key_parse_key_string)
qed

lemma key_string_example: "key_string (edgeKey 12 3) = ''3-12''"
  by (simp add: key_string_def edgeKey_def decimal.simps [of 12] decimal.simps [of 3]
      decimal.simps [of "Suc 0"] digit_char_def)

lemma edgeKey_string_nat: "edgeKey_string (int a) (int b) = key_string (edgeKey a b)"
  by (simp add: edgeKey_string_def integer_string_def key_string_def edgeKey_def)

section \<open>The slider mapping\<close>

lemma sliderToRadius_first_range:
  "t \<le> 1 / 2 \<Longrightarrow> sliderToRadius t = 12 + 976 * t"
  by (simp add: sliderToRadius_def sliderToRadius_first_def FIRST_RANGE_def)

lemma sliderToRadius_second_range:
  "1 / 2 < t \<Longrightarrow> t \<le> 3 / 4 \<Longrightarrow> sliderToRadius t = 2000 * t - 500"
  by (simp add: sliderToRadius_def sliderToRadius_second_def FIRST_RANGE_def SECOND_RANGE_def
      algebra_simps)

lemma sliderToRadius_third_range:
  "3 / 4 < t \<Longrightarrow> sliderToRadius t = 16000 * t - 11000"
  by (simp add: sliderToRadius_def sliderToRadius_third_def FIRST_RANGE_def SECOND_RANGE_def
      THIRD_RANGE_def algebra_simps)

lemma radiusToSlider_first_range:
  "r \<le> 500 \<Longrightarrow> radiusToSlider r = (r - 12) / 976"
  by (simp add: radiusToSlider_def FIRST_RANGE_def)

lemma radiusToSlider_second_range:
  "500 < r \<Longrightarrow> r \<le> 1000 \<Longrightarrow> radiusToSlider r = 1 / 2 + (r - 500) / 2000"
  by (simp add: radiusToSlider_def FIRST_RANGE_def SECOND_RANGE_def)

lemma radiusToSlider_third_range:
  "1000 < r \<Longrightarrow> radiusToSlider r = 3 / 4 + (r - 1000) / 16000"
  by (simp add: radiusToSlider_def FIRST_RANGE_def SECOND_RANGE_def THIRD_RANGE_def)

lemma radiusToSlider_sliderToRadius: "radiusToSlider (sliderToRadius t) = t"
proof -
  consider "t \<le> 1 / 2" | "1 / 2 < t" "t \<le> 3 / 4" | "3 / 4 < t"
    by linarith
  then show ?thesis
  proof cases
    case 1
    then have "sliderToRadius t \<le> 500"
      by (simp add: sliderToRadius_first_range)
    then show ?thesis
      using 1 by (simp add: radiusToSlider_first_range sliderToRadius_first_range)
  next
    case 2
    then have "500 < sliderToRadius t" "sliderToRadius t \<le> 1000"
      by (simp_all add: sliderToRadius_second_range)
    then show ?thesis
      using 2 by (simp add: radiusToSlider_second_range sliderToRadius_second_range field_simps)
  next
    case 3
    then have "1000 < sliderToRadius t"
      by (simp add: sliderToRadius_third_range)
    then show ?thesis
      using 3 by (simp add: radiusToSlider_third_range sliderToRadius_third_range field_simps)
  qed
qed

text \<open>
  Claim C7.  For every \<open>t\<close> in \<open>[0,1]\<close>, \<^verbatim>\<open>radiusToSlider(sliderToRadius(t))\<close> is \<open>t\<close>
  (in exact arithmetic the two are equal, so they agree within every tolerance), and
  the mapping is continuous across its three segments: at the boundary \<open>1/2\<close> the
  first and the second segment's formulas give the same radius, at \<open>3/4\<close> the second
  and the third do, and \<^verbatim>\<open>sliderToRadius\<close> itself takes that common value there.
\<close>

theorem slider_round_trip_and_continuity:
  "(0 \<le> t \<and> t \<le> 1 \<longrightarrow> radiusToSlider (sliderToRadius t) = t)
   \<and> sliderToRadius_first (sliderMax FIRST_RANGE) = sliderToRadius_second (sliderMax FIRST_RANGE)
   \<and> sliderToRadius (sliderMax FIRST_RANGE) = sliderToRadius_first (sliderMax FIRST_RANGE)
   \<and> sliderToRadius_second (sliderMax SECOND_RANGE) = sliderToRadius_third (sliderMax SECOND_RANGE)
   \<and> sliderToRadius (sliderMax SECOND_RANGE) = sliderToRadius_second (sliderMax SECOND_RANGE)"
proof -
  have round: "radiusToSlider (sliderToRadius t) = t"
    by (rule radiusToSlider_sliderToRadius)
  have b1: "sliderToRadius_first (sliderMax FIRST_RANGE) = sliderToRadius_second (sliderMax FIRST_RANGE)"
    by (simp add: sliderToRadius_first_def sliderToRadius_second_def FIRST_RANGE_def
        SECOND_RANGE_def)
  have v1: "sliderToRadius (sliderMax FIRST_RANGE) = sliderToRadius_first (sliderMax FIRST_RANGE)"
    by (simp add: sliderToRadius_def)
  have b2: "sliderToRadius_second (sliderMax SECOND_RANGE) = sliderToRadius_third (sliderMax SECOND_RANGE)"
    by (simp add: sliderToRadius_second_def sliderToRadius_third_def FIRST_RANGE_def
        SECOND_RANGE_def THIRD_RANGE_def)
  have v2: "sliderToRadius (sliderMax SECOND_RANGE) = sliderToRadius_second (sliderMax SECOND_RANGE)"
    by (simp add: sliderToRadius_def FIRST_RANGE_def SECOND_RANGE_def)
  from round b1 v1 b2 v2 show ?thesis by blast
qed

theorem slider_round_trip_and_continuity_witness:
  "(0::real) \<le> 3 / 5 \<and> (3 / 5 :: real) \<le> 1
   \<and> sliderToRadius (3 / 5) = 700
   \<and> radiusToSlider (sliderToRadius (3 / 5)) = 3 / 5
   \<and> sliderToRadius_first (1 / 2) = 500 \<and> sliderToRadius_second (1 / 2) = 500
   \<and> sliderToRadius_second (3 / 4) = 1000 \<and> sliderToRadius_third (3 / 4) = 1000"
  using slider_round_trip_and_continuity [of "3 / 5"]
  by (simp add: sliderToRadius_second_range sliderToRadius_first_def sliderToRadius_second_def
      sliderToRadius_third_def FIRST_RANGE_def SECOND_RANGE_def THIRD_RANGE_def)

section \<open>Removing a polygon's closing vertex\<close>

text \<open>
  Claim C10.  For every polygon of exactly one vertex, \<^verbatim>\<open>polygonWithoutDuplicate\<close>
  returns the empty polygon: the vertex is the first and the last one, so the guard
  holds and the slice drops it.  Hence a non-empty polygon can come back empty.
\<close>

theorem polygonWithoutDuplicate_single_vertex:
  "polygonWithoutDuplicate [v] = []
   \<and> (\<exists>p. p \<noteq> [] \<and> polygonWithoutDuplicate p = [])"
proof -
  have single: "polygonWithoutDuplicate [v] = []"
    by (simp add: polygonWithoutDuplicate_def)
  then have "[v] \<noteq> [] \<and> polygonWithoutDuplicate [v] = []"
    by simp
  then have "\<exists>p. p \<noteq> [] \<and> polygonWithoutDuplicate p = []"
    by (rule exI)
  with single show ?thesis by simp
qed

section \<open>Alpha structures\<close>

lemma hypot_eqI: "0 \<le> r \<Longrightarrow> u * u + v * v = r * r \<Longrightarrow> hypot u v = r"
  by (simp add: hypot_def)

lemma hypot_values:
  "hypot 4 (-3) = 5" "hypot 0 (-3) = 3" "hypot (-4) 0 = 4"
  "hypot 8 (-6) = 10" "hypot 0 (-6) = 6" "hypot (-8) 0 = 8"
  by (rule hypot_eqI; simp)+

text \<open>
  Flat triangles in exact arithmetic: when two of the three positions coincide or the
  three lie on one line, the cross product is zero, so the area is \<open>0\<close> and the
  circumradius positive infinity.
\<close>

lemma triangleArea_degenerate:
  assumes "degenerate a_x a_y b_x b_y c_x c_y"
  shows "triangleArea a_x a_y b_x b_y c_x c_y = 0"
proof -
  have cross: "a_x * (b_y - c_y) + b_x * (c_y - a_y) + c_x * (a_y - b_y) = 0"
  proof -
    consider (ab) "a_x = b_x" "a_y = b_y" | (bc) "b_x = c_x" "b_y = c_y"
      | (ca) "c_x = a_x" "c_y = a_y"
      | (line) t where "c_x = a_x + t * (b_x - a_x)" "c_y = a_y + t * (b_y - a_y)"
      using assms unfolding degenerate_def by blast
    then show ?thesis
    proof cases
      case ab
      then show ?thesis by (simp add: algebra_simps)
    next
      case bc
      then show ?thesis by (simp add: algebra_simps)
    next
      case ca
      then show ?thesis by (simp add: algebra_simps)
    next
      case line
      show ?thesis
        unfolding line by (simp add: algebra_simps)
    qed
  qed
  then show ?thesis
    by (simp add: triangleArea_def)
qed

lemma circumradius_degenerate:
  "degenerate a_x a_y b_x b_y c_x c_y \<Longrightarrow> circumradius a_x a_y b_x b_y c_x c_y = PositiveInfinity"
  by (simp add: circumradius_def Let_def triangleArea_degenerate)

lemma number_le_iff_not_less: "number_le r a \<longleftrightarrow> \<not> number_less a r"
  by (cases r; cases a) auto

lemma number_le_mono: "number_less a1 a2 \<Longrightarrow> number_le r a1 \<Longrightarrow> number_le r a2"
  by (cases r; cases a1; cases a2) auto

lemma alphaBody_Inr:
  assumes "alphaBody points tris alpha index st = Inr st'"
  shows "fst st' = fst st @ kept points tris alpha index"
  using assms
  by (auto simp: alphaBody_def kept_def array_get_def array_get_int_def qualifies_def
      point_circumradius_def Let_def number_le_iff_not_less split: if_splits)

lemma alphaLoop_set:
  "alphaLoop points tris alpha index st = Inr st' \<Longrightarrow>
   set (fst st') = set (fst st) \<union> (\<Union>j. set (kept points tris alpha (index + 3 * j)))"
proof (induction points tris alpha index st rule: alphaLoop.induct)
  case (1 points tris alpha index st)
  show ?case
  proof (cases "index < length tris")
    case False
    then have "\<And>j. kept points tris alpha (index + 3 * j) = []"
      by (simp add: kept_def)
    moreover have "st' = st"
      using False "1.prems" by (simp add: alphaLoop.simps)
    ultimately show ?thesis by simp
  next
    case True
    then obtain st1 where body: "alphaBody points tris alpha index st = Inr st1"
      and rest: "alphaLoop points tris alpha (index + 3) st1 = Inr st'"
      using "1.prems" by (auto simp: alphaLoop.simps [of _ _ _ index] split: sum.splits)
    have ih: "set (fst st') = set (fst st1) \<union> (\<Union>j. set (kept points tris alpha (index + 3 + 3 * j)))"
      using "1.IH" [OF True body rest] .
    have split: "(\<Union>j. set (kept points tris alpha (index + 3 * j)))
        = set (kept points tris alpha index) \<union> (\<Union>j. set (kept points tris alpha (index + 3 + 3 * j)))"
      (is "?L = ?R")
    proof (rule set_eqI)
      fix t
      show "t \<in> ?L \<longleftrightarrow> t \<in> ?R"
      proof
        assume "t \<in> ?L"
        then obtain j where j: "t \<in> set (kept points tris alpha (index + 3 * j))"
          by blast
        show "t \<in> ?R"
        proof (cases j)
          case 0
          with j show ?thesis by simp
        next
          case (Suc j')
          then have "index + 3 * j = index + 3 + 3 * j'" by simp
          with j show ?thesis by auto
        qed
      next
        assume "t \<in> ?R"
        then consider "t \<in> set (kept points tris alpha (index + 3 * 0))"
          | j' where "t \<in> set (kept points tris alpha (index + 3 + 3 * j'))"
          by auto
        then show "t \<in> ?L"
        proof cases
          case 1
          then show ?thesis by blast
        next
          case 2
          have "index + 3 + 3 * j' = index + 3 * Suc j'" by simp
          with 2 show ?thesis by (metis UN_I UNIV_I)
        qed
      qed
    qed
    show ?thesis
      using ih alphaBody_Inr [OF body] split by auto
  qed
qed


lemma computeAlphaData_triangles:
  assumes "computeAlphaData points delaunay alpha = Inr d"
  shows "set (alpha_triangles d) = (\<Union>j. set (kept points (triangles delaunay) alpha (3 * j)))"
proof -
  obtain st' where loop: "alphaLoop points (triangles delaunay) alpha 0 ([], []) = Inr st'"
    and d: "alpha_triangles d = fst st'"
    using assms by (auto simp: computeAlphaData_def split: sum.splits prod.splits)
  show ?thesis
    using alphaLoop_set [OF loop] d by simp
qed

lemma computeAlphaData_member:
  assumes "computeAlphaData points delaunay alpha = Inr d"
  shows "(i0, i1, i2) \<in> set (alpha_triangles d) \<longleftrightarrow>
         (\<exists>k. triangle_at (triangles delaunay) k (i0, i1, i2))
         \<and> i0 \<noteq> i1 \<and> i1 \<noteq> i2 \<and> i2 \<noteq> i0
         \<and> qualifies points alpha (i0, i1, i2)"
  unfolding computeAlphaData_triangles [OF assms]
  by (auto simp: kept_def triangle_at_def split: if_splits)

lemma alphaBody_returns:
  assumes "\<forall>i \<in> set tris. index_in_range points i"
  shows "\<exists>st'. alphaBody points tris alpha index st = Inr st'"
proof -
  have pt: "array_get_int points i = Some (points ! nat i)" if "array_get tris k = Some i" for i k
  proof -
    from that have "i \<in> set tris"
      by (auto simp: array_get_def split: if_splits)
    with assms show ?thesis
      by (simp add: array_get_int_def index_in_range_def)
  qed
  show ?thesis
  proof (cases "array_get tris index")
    case None
    then show ?thesis
      by (simp add: alphaBody_def)
  next
    case i0: (Some i0)
    show ?thesis
    proof (cases "array_get tris (Suc index)")
      case None
      then show ?thesis
        by (simp add: alphaBody_def i0)
    next
      case i1: (Some i1)
      show ?thesis
      proof (cases "array_get tris (Suc (Suc index))")
        case None
        then show ?thesis
          by (simp add: alphaBody_def i0 i1)
      next
        case i2: (Some i2)
        show ?thesis
          by (simp add: alphaBody_def i0 i1 i2 pt [OF i0] pt [OF i1] pt [OF i2] Let_def)
      qed
    qed
  qed
qed

lemma alphaLoop_returns:
  "\<forall>i \<in> set tris. index_in_range points i \<Longrightarrow>
   \<exists>st'. alphaLoop points tris alpha index st = Inr st'"
proof (induction points tris alpha index st rule: alphaLoop.induct)
  case (1 points tris alpha index st)
  show ?case
  proof (cases "index < length tris")
    case False
    then show ?thesis
      by (simp add: alphaLoop.simps)
  next
    case True
    obtain st1 where body: "alphaBody points tris alpha index st = Inr st1"
      using alphaBody_returns [OF "1.prems"] by blast
    from "1.IH" [OF True body "1.prems"] show ?thesis
      using True body by (simp add: alphaLoop.simps [of _ _ _ index])
  qed
qed

lemma computeAlphaData_returns:
  assumes "\<forall>i \<in> set (triangles delaunay). index_in_range points i"
  shows "\<exists>d. computeAlphaData points delaunay alpha = Inr d"
proof -
  obtain st' where "alphaLoop points (triangles delaunay) alpha 0 ([], []) = Inr st'"
    using alphaLoop_returns [OF assms] by blast
  then show ?thesis
    by (cases st') (simp add: computeAlphaData_def)
qed

text \<open>
  Claim C3.  \<^verbatim>\<open>computeAlphaData\<close> returns for every threshold when the triangle
  indices are positions of the point sequence.  When it returns for two thresholds
  \<open>alpha1 < alpha2\<close> on the same points and triangulation, every triangle it keeps at
  \<open>alpha1\<close> it keeps at \<open>alpha2\<close>; and a triple is kept exactly when it is a triangle of
  the flat index array with three different indices whose circumradius is finite and
  at most the threshold (a circumradius equal to the threshold is kept).
\<close>

theorem alpha_monotone_and_threshold:
  assumes "number_less alpha1 alpha2"
  shows "((\<forall>i \<in> set (triangles delaunay). index_in_range points i) \<longrightarrow>
            (\<exists>d1 d2. computeAlphaData points delaunay alpha1 = Inr d1
                     \<and> computeAlphaData points delaunay alpha2 = Inr d2))
         \<and> (\<forall>d1 d2. computeAlphaData points delaunay alpha1 = Inr d1
                     \<and> computeAlphaData points delaunay alpha2 = Inr d2 \<longrightarrow>
               set (alpha_triangles d1) \<subseteq> set (alpha_triangles d2)
               \<and> (\<forall>i0 i1 i2. (i0, i1, i2) \<in> set (alpha_triangles d1) \<longleftrightarrow>
                     (\<exists>k. triangle_at (triangles delaunay) k (i0, i1, i2))
                     \<and> i0 \<noteq> i1 \<and> i1 \<noteq> i2 \<and> i2 \<noteq> i0
                     \<and> qualifies points alpha1 (i0, i1, i2)))"
proof (intro conjI allI impI)
  assume "\<forall>i \<in> set (triangles delaunay). index_in_range points i"
  then show "\<exists>d1 d2. computeAlphaData points delaunay alpha1 = Inr d1
                     \<and> computeAlphaData points delaunay alpha2 = Inr d2"
    using computeAlphaData_returns by blast
next
  fix d1 d2
  assume both: "computeAlphaData points delaunay alpha1 = Inr d1
                     \<and> computeAlphaData points delaunay alpha2 = Inr d2"
  then have r1: "computeAlphaData points delaunay alpha1 = Inr d1"
    and r2: "computeAlphaData points delaunay alpha2 = Inr d2"
    by simp_all
  have mono: "qualifies points alpha2 t" if "qualifies points alpha1 t" for t
    using that assms by (auto simp: qualifies_def intro: number_le_mono split: prod.splits)
  show "set (alpha_triangles d1) \<subseteq> set (alpha_triangles d2)"
  proof
    fix t
    assume t: "t \<in> set (alpha_triangles d1)"
    obtain i0 i1 i2 where [simp]: "t = (i0, i1, i2)"
      by (cases t) auto
    from t show "t \<in> set (alpha_triangles d2)"
      using mono [of t]
      by (simp add: computeAlphaData_member [OF r1] computeAlphaData_member [OF r2])
  qed
  fix i0 i1 i2
  show "(i0, i1, i2) \<in> set (alpha_triangles d1) \<longleftrightarrow>
          (\<exists>k. triangle_at (triangles delaunay) k (i0, i1, i2))
          \<and> i0 \<noteq> i1 \<and> i1 \<noteq> i2 \<and> i2 \<noteq> i0
          \<and> qualifies points alpha1 (i0, i1, i2)"
    by (rule computeAlphaData_member [OF r1])
qed

theorem alpha_monotone_and_threshold_witness:
  "number_less (Finite (5 / 2)) (Finite 5)
   \<and> computeAlphaData two_right_triangles \<lparr>triangles = [0, 1, 2, 0, 3, 4], halfedges = []\<rparr>
       (Finite (5 / 2))
     = Inr \<lparr>alpha_triangles = [(0, 1, 2)], allEdges = [(0, 1), (1, 2), (0, 2)],
            boundaryEdges = [(0, 1), (1, 2), (0, 2)]\<rparr>
   \<and> computeAlphaData two_right_triangles \<lparr>triangles = [0, 1, 2, 0, 3, 4], halfedges = []\<rparr>
       (Finite 5)
     = Inr \<lparr>alpha_triangles = [(0, 1, 2), (0, 3, 4)],
            allEdges = [(0, 1), (1, 2), (0, 2), (0, 3), (3, 4), (0, 4)],
            boundaryEdges = [(0, 1), (1, 2), (0, 2), (0, 3), (3, 4), (0, 4)]\<rparr>
   \<and> set [(0, 1, 2)] \<subseteq> set [(0, 1, 2), (0, 3, 4 :: int)]
   \<and> point_circumradius (two_right_triangles ! 0) (two_right_triangles ! 1)
        (two_right_triangles ! 2) = Finite (5 / 2)
   \<and> qualifies two_right_triangles (Finite (5 / 2)) (0, 1, 2)"
proof -
  let ?d = "\<lparr>triangles = [0, 1, 2, 0, 3, 4], halfedges = []\<rparr>"
  let ?d1 = "\<lparr>alpha_triangles = [(0, 1, 2)], allEdges = [(0, 1), (1, 2), (0, 2)],
            boundaryEdges = [(0, 1), (1, 2), (0, 2)]\<rparr>"
  let ?d2 = "\<lparr>alpha_triangles = [(0, 1, 2), (0, 3, 4)],
            allEdges = [(0, 1), (1, 2), (0, 2), (0, 3), (3, 4), (0, 4)],
            boundaryEdges = [(0, 1), (1, 2), (0, 2), (0, 3), (3, 4), (0, 4)]\<rparr>"
  have e1: "computeAlphaData two_right_triangles ?d (Finite (5 / 2)) = Inr ?d1"
    by (simp add: computeAlphaData_def alphaLoop.simps alphaBody_def array_get_def array_get_int_def
        two_right_triangles_def circumradius_def triangleArea_def hypot_values Let_def
        edgeKey_def count_edge_def map_get_or_def decodeEdgeKey_def)
  have e2: "computeAlphaData two_right_triangles ?d (Finite 5) = Inr ?d2"
    by (simp add: computeAlphaData_def alphaLoop.simps alphaBody_def array_get_def array_get_int_def
        two_right_triangles_def circumradius_def triangleArea_def hypot_values Let_def
        edgeKey_def count_edge_def map_get_or_def decodeEdgeKey_def)
  have lt: "number_less (Finite (5 / 2)) (Finite 5)"
    by simp
  have r: "point_circumradius (two_right_triangles ! 0) (two_right_triangles ! 1)
        (two_right_triangles ! 2) = Finite (5 / 2)"
    by (simp add: point_circumradius_def two_right_triangles_def circumradius_def
        triangleArea_def hypot_values Let_def)
  note claim = alpha_monotone_and_threshold
    [OF lt, where delaunay = ?d and points = two_right_triangles]
  note returned = claim [THEN conjunct2, THEN spec, THEN spec, THEN mp, OF conjI [OF e1 e2]]
  have sub: "set (alpha_triangles ?d1) \<subseteq> set (alpha_triangles ?d2)"
    by (rule returned [THEN conjunct1])
  have mem: "(0, 1, 2) \<in> set (alpha_triangles ?d1) \<longleftrightarrow>
           (\<exists>k. triangle_at (triangles ?d) k (0, 1, 2))
           \<and> (0::int) \<noteq> 1 \<and> (1::int) \<noteq> 2 \<and> (2::int) \<noteq> 0
           \<and> qualifies two_right_triangles (Finite (5 / 2)) (0, 1, 2)"
    by (rule returned [THEN conjunct2, THEN spec, THEN spec, THEN spec])
  from sub have s: "set [(0, 1, 2)] \<subseteq> set [(0, 1, 2), (0, 3, 4 :: int)]"
    by simp
  from mem have q: "qualifies two_right_triangles (Finite (5 / 2)) (0, 1, 2)"
    by simp
  from lt e1 e2 s r q show ?thesis
    by (intro conjI)
qed

section \<open>The area of a flat triangle in doubles\<close>

lemma binary_exponent_eq:
  assumes "1 / 2 ^ k \<le> \<bar>x\<bar>" "\<bar>x\<bar> < 2 / 2 ^ k"
  shows "binary_exponent x = - int k"
proof -
  have pos: "0 < \<bar>x\<bar>"
    using assms(1) by (smt (verit) divide_pos_pos zero_less_power)
  have "\<lfloor>log 2 \<bar>x\<bar>\<rfloor> = - int k \<longleftrightarrow> 2 powr (- int k) \<le> \<bar>x\<bar> \<and> \<bar>x\<bar> < 2 powr (- int k + 1)"
    using floor_log_eq_powr_iff [of "\<bar>x\<bar>" 2 "- int k"] pos by simp
  moreover have low: "2 powr (- real k) = 1 / 2 ^ k"
    by (simp add: powr_minus powr_realpow divide_simps)
  moreover have "2 powr (- real k + 1) = 2 / 2 ^ k"
  proof -
    have "(2::real) powr (- real k + 1) = 2 powr (- real k) * 2 powr 1"
      by (rule powr_add)
    then show ?thesis
      by (simp add: low)
  qed
  ultimately show ?thesis
    using assms by (simp add: binary_exponent_def)
qed

text \<open>Rounding a result between \<open>2\<^sup>-\<^sup>k\<close> and \<open>2\<^sup>1\<^sup>-\<^sup>k\<close>: to a multiple of \<open>2\<^sup>-\<^sup>k\<^sup>-\<^sup>5\<^sup>2\<close>.\<close>

lemma round_double_small:
  assumes "1 / 2 ^ k \<le> \<bar>x\<bar>" "\<bar>x\<bar> < 2 / 2 ^ k"
  shows "round_double x = of_int (round_half_even (x * 2 ^ (k + 52))) / 2 ^ (k + 52)"
proof -
  have nz: "x \<noteq> 0"
    using assms(1) by (smt (verit) divide_pos_pos zero_less_power)
  have "spacing x = 2 powi (- int (k + 52))"
    by (simp add: spacing_def binary_exponent_eq [OF assms])
  also have "\<dots> = 1 / 2 ^ (k + 52)"
    by (simp only: power_int_minus power_int_of_nat inverse_eq_divide)
  finally have s: "spacing x = 1 / 2 ^ (k + 52)" .
  show ?thesis
    using nz by (simp add: round_double_def s)
qed

lemma literal_doubles:
  "round_double (1 / 10) = double_0_1" "round_double (2 / 10) = double_0_2"
  "round_double (3 / 10) = double_0_3"
proof -
  show "round_double (1 / 10) = double_0_1"
    by (subst round_double_small [where k = 4])
      (simp_all add: double_0_1_def round_half_even_def Let_def)
  show "round_double (2 / 10) = double_0_2"
    by (subst round_double_small [where k = 3])
      (simp_all add: double_0_2_def round_half_even_def Let_def)
  show "round_double (3 / 10) = double_0_3"
    by (subst round_double_small [where k = 2])
      (simp_all add: double_0_3_def round_half_even_def Let_def)
qed

text \<open>The three differences are doubles themselves; the three products are rounded.\<close>

lemma differences_in_doubles:
  "round_double (double_0_2 - double_0_3) = - (900719925474099 / 2 ^ 53)"
  "round_double (double_0_3 - double_0_1) = 7205759403792793 / 2 ^ 55"
  "round_double (double_0_1 - double_0_2) = - (3602879701896397 / 2 ^ 55)"
proof -
  show "round_double (double_0_2 - double_0_3) = - (900719925474099 / 2 ^ 53)"
    by (subst round_double_small [where k = 4])
      (simp_all add: double_0_2_def double_0_3_def round_half_even_def Let_def)
  show "round_double (double_0_3 - double_0_1) = 7205759403792793 / 2 ^ 55"
    by (subst round_double_small [where k = 3])
      (simp_all add: double_0_3_def double_0_1_def round_half_even_def Let_def)
  show "round_double (double_0_1 - double_0_2) = - (3602879701896397 / 2 ^ 55)"
    by (subst round_double_small [where k = 4])
      (simp_all add: double_0_1_def double_0_2_def round_half_even_def Let_def)
qed

lemma products_in_doubles:
  "round_double (double_0_1 * - (900719925474099 / 2 ^ 53)) = - (2882303761517117 / 2 ^ 58)"
  "round_double (double_0_2 * (7205759403792793 / 2 ^ 55)) = 5764607523034235 / 2 ^ 57"
  "round_double (double_0_3 * - (3602879701896397 / 2 ^ 55)) = - (1080863910568919 / 2 ^ 55)"
proof -
  show "round_double (double_0_1 * - (900719925474099 / 2 ^ 53))
      = - (2882303761517117 / 2 ^ 58)"
    by (subst round_double_small [where k = 7])
      (simp_all add: double_0_1_def round_half_even_def Let_def)
  show "round_double (double_0_2 * (7205759403792793 / 2 ^ 55)) = 5764607523034235 / 2 ^ 57"
    by (subst round_double_small [where k = 5])
      (simp_all add: double_0_2_def round_half_even_def Let_def)
  show "round_double (double_0_3 * - (3602879701896397 / 2 ^ 55))
      = - (1080863910568919 / 2 ^ 55)"
    by (subst round_double_small [where k = 6])
      (simp_all add: double_0_3_def round_half_even_def Let_def)
qed

lemma sums_in_doubles:
  "round_double (- (2882303761517117 / 2 ^ 58) + 5764607523034235 / 2 ^ 57)
     = 8646911284551353 / 2 ^ 58"
  "round_double (8646911284551353 / 2 ^ 58 + - (1080863910568919 / 2 ^ 55)) = 1 / 2 ^ 58"
  "round_double (\<bar>1 / 2 ^ 58\<bar> * (1 / 2)) = 1 / 2 ^ 59"
proof -
  show "round_double (- (2882303761517117 / 2 ^ 58) + 5764607523034235 / 2 ^ 57)
     = 8646911284551353 / 2 ^ 58"
    by (subst round_double_small [where k = 6]) (simp_all add: round_half_even_def Let_def)
  show "round_double (8646911284551353 / 2 ^ 58 + - (1080863910568919 / 2 ^ 55)) = 1 / 2 ^ 58"
    by (subst round_double_small [where k = 58]) (simp_all add: round_half_even_def Let_def)
  show "round_double (\<bar>1 / 2 ^ 58\<bar> * (1 / 2)) = 1 / 2 ^ 59"
    by (subst round_double_small [where k = 59]) (simp_all add: round_half_even_def Let_def)
qed

text \<open>
  Claim C5.  The doubles \<open>0.1\<close>, \<open>0.2\<close> and \<open>0.3\<close> give the three points \<open>(0.1, 0.1)\<close>,
  \<open>(0.2, 0.2)\<close> and \<open>(0.3, 0.3)\<close>, which lie exactly on the line \<open>y = x\<close>: the triple is
  degenerate and its exact area is \<open>0\<close>.  The area the code computes in doubles is
  \<open>2\<^sup>-\<^sup>5\<^sup>9\<close>, not \<open>0\<close>: the three products are rounded and no longer cancel.  The test
  \<^verbatim>\<open>area === 0\<close> of \<^verbatim>\<open>circumradius\<close> is then false, and the function returns the
  quotient of the side lengths by this area instead of positive infinity.
\<close>

theorem collinear_area_in_doubles:
  "round_double (1 / 10) = double_0_1 \<and> round_double (2 / 10) = double_0_2
   \<and> round_double (3 / 10) = double_0_3
   \<and> degenerate double_0_1 double_0_1 double_0_2 double_0_2 double_0_3 double_0_3
   \<and> triangleArea double_0_1 double_0_1 double_0_2 double_0_2 double_0_3 double_0_3 = 0
   \<and> triangleArea_double double_0_1 double_0_1 double_0_2 double_0_2 double_0_3 double_0_3
       = 1 / 2 ^ 59
   \<and> triangleArea_double double_0_1 double_0_1 double_0_2 double_0_2 double_0_3 double_0_3
       \<noteq> 0"
proof -
  have "double_0_2 - double_0_1 \<noteq> 0"
    by (simp add: double_0_1_def double_0_2_def)
  then have "double_0_3 = double_0_1
      + ((double_0_3 - double_0_1) / (double_0_2 - double_0_1)) * (double_0_2 - double_0_1)"
    by simp
  then have "\<exists>t. double_0_3 = double_0_1 + t * (double_0_2 - double_0_1)
      \<and> double_0_3 = double_0_1 + t * (double_0_2 - double_0_1)"
    by blast
  then have flat: "degenerate double_0_1 double_0_1 double_0_2 double_0_2 double_0_3 double_0_3"
    unfolding degenerate_def by blast
  have exact: "triangleArea double_0_1 double_0_1 double_0_2 double_0_2 double_0_3 double_0_3 = 0"
    by (simp add: triangleArea_def algebra_simps)
  have rounded: "triangleArea_double double_0_1 double_0_1 double_0_2 double_0_2 double_0_3
      double_0_3 = 1 / 2 ^ 59"
    unfolding triangleArea_double_def Let_def differences_in_doubles products_in_doubles
      sums_in_doubles by (rule refl)
  have nonzero: "triangleArea_double double_0_1 double_0_1 double_0_2 double_0_2
      double_0_3 double_0_3 \<noteq> 0"
    unfolding rounded by simp
  from literal_doubles flat exact rounded nonzero show ?thesis
    by (intro conjI)
qed

section \<open>The Gabriel and relative-neighbourhood filters\<close>

lemma hypot_zero_right: "hypot u 0 = \<bar>u\<bar>"
  by (simp add: hypot_def)

lemma hypot_ge_left: "\<bar>u\<bar> \<le> hypot u v"
  unfolding hypot_def by (rule real_le_rsqrt) (simp add: power2_eq_square)

lemma hypot_le_sum: "hypot u v \<le> \<bar>u\<bar> + \<bar>v\<bar>"
proof -
  have "u * u + v * v \<le> (\<bar>u\<bar> + \<bar>v\<bar>)\<^sup>2"
    by (simp add: power2_eq_square algebra_simps abs_mult [symmetric])
  then show ?thesis
    unfolding hypot_def by (intro real_le_lsqrt) simp_all
qed

text \<open>Values far below the largest double stay in range.\<close>

lemma overflow_threshold_large: "1000000 < overflow_threshold"
proof -
  have "(1000000::real) < 2 ^ 20"
    by simp
  also have "(2::real) ^ 20 \<le> 2 ^ 970"
    by (rule power_increasing) simp_all
  also have "(2::real) ^ 970 = 2 ^ 971 - 2 ^ 970"
    by simp
  also have "\<dots> \<le> 2 ^ 1024 - 2 ^ 970"
    by (simp add: power_increasing)
  finally show ?thesis
    by (simp add: overflow_threshold_def)
qed

lemma small_in_range: "\<bar>r\<bar> \<le> 1000000 \<Longrightarrow> \<not> overflows r"
  using overflow_threshold_large by (simp add: overflows_def)

lemma hypot_in_range: "\<bar>u\<bar> \<le> 1000 \<Longrightarrow> \<bar>v\<bar> \<le> 1000 \<Longrightarrow> \<not> overflows (hypot u v)"
proof (rule small_in_range)
  assume "\<bar>u\<bar> \<le> 1000" "\<bar>v\<bar> \<le> 1000"
  moreover have "0 \<le> hypot u v"
    by (simp add: hypot_def)
  ultimately show "\<bar>hypot u v\<bar> \<le> 1000000"
    using hypot_le_sum [of u v] by simp
qed





lemma rngScan_iff:
  "rngScan points (points ! nat aIndex) (points ! nat bIndex) aIndex bIndex
     (distance (points ! nat aIndex) (points ! nat bIndex)) ks
   \<longleftrightarrow> (\<forall>k \<in> set ks. int k \<noteq> aIndex \<and> int k \<noteq> bIndex
          \<longrightarrow> \<not> rng_violation points (aIndex, bIndex) k)"
  by (induction ks) (auto simp: rng_violation_def Let_def)

lemma rngScan_keeps:
  "rngScan points (points ! nat aIndex) (points ! nat bIndex) aIndex bIndex
     (distance (points ! nat aIndex) (points ! nat bIndex)) [0..<length points]
   \<longleftrightarrow> rng_keeps points (aIndex, bIndex)"
  unfolding rngScan_iff by (auto simp: rng_keeps_def third_point_def)

lemma rngLoop_eq:
  "rngLoop points candidateEdges result =
     (if \<forall>e \<in> set candidateEdges. edge_in_range points e
      then Inr (result @ filter (rng_keeps points) candidateEdges)
      else Inl TypeError)"
proof (induction candidateEdges arbitrary: result)
  case Nil
  show ?case by simp
next
  case (Cons e rest)
  obtain aIndex bIndex where e: "e = (aIndex, bIndex)"
    by (cases e)
  show ?case
  proof (cases "edge_in_range points e")
    case False
    then show ?thesis
      by (auto simp: e edge_in_range_def array_get_int_def)
  next
    case True
    then have a: "array_get_int points aIndex = Some (points ! nat aIndex)"
      and b: "array_get_int points bIndex = Some (points ! nat bIndex)"
      by (simp_all add: e edge_in_range_def array_get_int_def)
    show ?thesis
      using True by (simp add: e a b Let_def rngScan_keeps Cons.IH)
  qed
qed


lemma computeRelativeNeighborhoodEdges_eq:
  "computeRelativeNeighborhoodEdges points candidateEdges =
     (if \<forall>e \<in> set candidateEdges. edge_in_range points e
      then Inr (filter (rng_keeps points) candidateEdges)
      else Inl TypeError)"
  by (simp add: computeRelativeNeighborhoodEdges_def rngLoop_eq)








text \<open>
  The two filters compared.  With the tolerance on the distance in both tests, a third
  point that counts as inside the circle on \<open>ab\<close> is nearer to both endpoints than
  they are to each other by more than \<^verbatim>\<open>EPSILON\<close>: the distance of an endpoint to the
  point is at most the radius plus the distance of the point to the midpoint.  So an
  edge the relative-neighbourhood filter retains would be retained by such a Gabriel
  test, at every length of the edge.
\<close>

lemma distance_finite:
  "isFinite (distance a b) \<Longrightarrow> distance a b = Finite (hypot (x_of a - x_of b) (y_of a - y_of b))"
  by (auto simp: distance_def Let_def split: if_splits)

lemma hypot_triangle: "hypot (u + s) (v + t) \<le> hypot u v + hypot s t"
  unfolding hypot_def
  using real_sqrt_sum_squares_triangle_ineq [of u s v t] by (simp add: power2_eq_square)

lemma hypot_half: "hypot (u / 2) (v / 2) = hypot u v / 2"
proof -
  have "(u / 2) * (u / 2) + (v / 2) * (v / 2) = (u * u + v * v) / 4"
    by (simp add: field_simps)
  then have "hypot (u / 2) (v / 2) = sqrt ((u * u + v * v) / 4)"
    by (simp add: hypot_def)
  also have "\<dots> = sqrt (u * u + v * v) / sqrt 4"
    by (rule real_sqrt_divide)
  also have "sqrt 4 = (2::real)"
    using real_sqrt_abs [of 2] by simp
  finally show ?thesis
    by (simp add: hypot_def)
qed

lemma endpoint_via_midpoint:
  "hypot (x_of a - x_of p) (y_of a - y_of p)
     \<le> sqrt (squared_length a b) / 2 + sqrt (squared_to_midpoint a b p)"
proof -
  let ?mx = "(x_of a + x_of b) / 2" and ?my = "(y_of a + y_of b) / 2"
  have "x_of a - x_of p = (x_of a - x_of b) / 2 + (?mx - x_of p)"
    and "y_of a - y_of p = (y_of a - y_of b) / 2 + (?my - y_of p)"
    by (simp_all add: field_simps)
  then have "hypot (x_of a - x_of p) (y_of a - y_of p)
      = hypot ((x_of a - x_of b) / 2 + (?mx - x_of p)) ((y_of a - y_of b) / 2 + (?my - y_of p))"
    by (simp only:)
  also have "\<dots> \<le> hypot ((x_of a - x_of b) / 2) ((y_of a - y_of b) / 2)
      + hypot (?mx - x_of p) (?my - y_of p)"
    by (rule hypot_triangle)
  also have "hypot ((x_of a - x_of b) / 2) ((y_of a - y_of b) / 2) = sqrt (squared_length a b) / 2"
    by (simp add: hypot_half) (simp add: hypot_def squared_length_def)
  also have "hypot (?mx - x_of p) (?my - y_of p) = sqrt (squared_to_midpoint a b p)"
    by (simp add: hypot_def squared_to_midpoint_def algebra_simps)
  finally show ?thesis .
qed

lemma squared_length_commute: "squared_length a b = squared_length b a"
  by (simp add: squared_length_def algebra_simps)

lemma squared_to_midpoint_commute: "squared_to_midpoint a b p = squared_to_midpoint b a p"
  by (simp add: squared_to_midpoint_def algebra_simps)

lemma gabriel_by_distance_rng:
  assumes ab: "isFinite (distance (points ! nat (fst e)) (points ! nat (snd e)))"
    and ak: "isFinite (distance (points ! nat (fst e)) (points ! k))"
    and bk: "isFinite (distance (points ! nat (snd e)) (points ! k))"
    and inside: "gabriel_violation_by_distance points e k"
  shows "rng_violation points e k"
proof -
  let ?a = "points ! nat (fst e)" and ?b = "points ! nat (snd e)" and ?p = "points ! k"
  let ?r = "sqrt (squared_length ?a ?b) / 2"
  from inside have m: "sqrt (squared_to_midpoint ?a ?b ?p) < ?r - EPSILON"
    by (simp add: gabriel_violation_by_distance_def)
  have len: "hypot (x_of ?a - x_of ?b) (y_of ?a - y_of ?b) = 2 * ?r"
    by (simp add: hypot_def squared_length_def)
  have "hypot (x_of ?a - x_of ?p) (y_of ?a - y_of ?p) \<le> ?r + sqrt (squared_to_midpoint ?a ?b ?p)"
    by (rule endpoint_via_midpoint)
  with m have a_near: "hypot (x_of ?a - x_of ?p) (y_of ?a - y_of ?p) < 2 * ?r - EPSILON"
    by linarith
  have "hypot (x_of ?b - x_of ?p) (y_of ?b - y_of ?p)
      \<le> sqrt (squared_length ?b ?a) / 2 + sqrt (squared_to_midpoint ?b ?a ?p)"
    by (rule endpoint_via_midpoint)
  with m have b_near: "hypot (x_of ?b - x_of ?p) (y_of ?b - y_of ?p) < 2 * ?r - EPSILON"
    by (simp add: squared_length_commute [of ?b ?a] squared_to_midpoint_commute [of ?b ?a])
  show ?thesis
    using a_near b_near
    by (simp add: rng_violation_def distance_finite [OF ab] distance_finite [OF ak]
        distance_finite [OF bk] len)
qed

text \<open>
  Claim C2.  On the three points \<open>(0,0)\<close>, \<open>(2,0)\<close> and \<open>(10\<^sup>-\<^sup>6, 10\<^sup>-\<^sup>6)\<close> with the single
  candidate edge \<open>(0,1)\<close>, the relative-neighbourhood filter retains the edge and the
  Gabriel filter removes it: the result of the first is no subset of the result of
  the second.  The third point is nearer to the far endpoint than the endpoints are
  to each other by less than \<^verbatim>\<open>EPSILON\<close>, which the first filter takes off a distance,
  so it passes no test there; the second takes the same \<^verbatim>\<open>EPSILON\<close> off a squared
  radius, and the point passes that test, though it is inside the circle by less than
  \<^verbatim>\<open>EPSILON\<close> as a distance.
\<close>

theorem rng_edge_removed_by_gabriel:
  "computeRelativeNeighborhoodEdges near_miss [(0, 1)] = Inr [(0, 1)]
   \<and> computeGabrielEdges near_miss [(0, 1)] = Inr []
   \<and> \<not> set [(0, 1) :: EdgeIndex] \<subseteq> set []
   \<and> third_point near_miss (0, 1) 2
   \<and> \<not> rng_violation near_miss (0, 1) 2
   \<and> gabriel_violation near_miss (0, 1) 2
   \<and> \<not> gabriel_violation_by_distance near_miss (0, 1) 2"
proof -
  have "\<bar>1999999 / 1000000\<bar> \<le> hypot (1999999 / 1000000) (- (1 / 1000000))"
    by (rule hypot_ge_left)
  then have far: "\<not> hypot (1999999 / 1000000) (- (1 / 1000000)) * 1000000 < 1999999"
    by simp
  have ab: "hypot (- 2) 0 = 2"
    by (rule hypot_eqI) simp_all
  have in_range: "\<not> overflows 0" "\<not> overflows 1" "\<not> overflows 2" "\<not> overflows 4"
    "\<not> overflows (- 2)" "\<not> overflows (1 / 1000000)" "\<not> overflows (- (1 / 1000000))"
    "\<not> overflows (1999999 / 1000000)" "\<not> overflows (- (999999 / 1000000))"
    "\<not> overflows (1 / 1000000000000)" "\<not> overflows (999998000001 / 1000000000000)"
    "\<not> overflows (499999000001 / 500000000000)"
    "\<not> overflows (hypot (- (1 / 1000000)) (- (1 / 1000000)))"
    "\<not> overflows (hypot (1999999 / 1000000) (- (1 / 1000000)))"
    by (simp_all add: small_in_range hypot_in_range)
  have r: "computeRelativeNeighborhoodEdges near_miss [(0, 1)] = Inr [(0, 1)]"
    using far ab
    by (simp add: computeRelativeNeighborhoodEdges_def array_get_int_def near_miss_def Let_def
        distance_def in_range EPSILON_def)
  have g: "computeGabrielEdges near_miss [(0, 1)] = Inr []"
    by (simp add: computeGabrielEdges_def array_get_int_def near_miss_def Let_def
        distanceSquared_def midpoint_def offsetSquared_def in_range EPSILON_def)
  have t: "third_point near_miss (0, 1) 2"
    by (simp add: third_point_def near_miss_def)
  have nr: "\<not> rng_violation near_miss (0, 1) 2"
    using far ab
    by (simp add: rng_violation_def near_miss_def distance_def in_range EPSILON_def Let_def)
  have gv: "gabriel_violation near_miss (0, 1) 2"
    by (simp add: gabriel_violation_def center_distanceSquared_def midpoint_def
        offsetSquared_def distanceSquared_def near_miss_def in_range EPSILON_def Let_def)
  have "\<bar>- (999999 / 1000000)\<bar> \<le> hypot (- (999999 / 1000000)) (1 / 1000000)"
    by (rule hypot_ge_left)
  then have near: "999999 / 1000000
      \<le> sqrt (squared_to_midpoint (near_miss ! 0) (near_miss ! 1) (near_miss ! 2))"
    by (simp add: hypot_def squared_to_midpoint_def near_miss_def)
  have "sqrt (squared_length (near_miss ! 0) (near_miss ! 1)) = sqrt (2 * 2)"
    by (simp add: squared_length_def near_miss_def)
  then have len: "sqrt (squared_length (near_miss ! 0) (near_miss ! 1)) = 2"
    by (simp only: real_sqrt_mult_self) simp
  have nd: "\<not> gabriel_violation_by_distance near_miss (0, 1) 2"
    using near len by (simp add: gabriel_violation_by_distance_def EPSILON_def)
  have ns: "\<not> set [(0, 1) :: EdgeIndex] \<subseteq> set []"
    by simp
  from r g ns t nr gv nd show ?thesis
    by (intro conjI)
qed

section \<open>Nearest-neighbour edges\<close>

lemma number_le_refl: "number_le a a"
  by (cases a) simp_all

lemma number_less_le_trans: "number_less a b \<Longrightarrow> number_le b c \<Longrightarrow> number_less a c"
  by (cases a; cases b; cases c) simp_all

lemma number_less_imp_le: "number_less a b \<Longrightarrow> number_le a b"
  by (cases a; cases b) simp_all

lemma number_le_trans: "number_le a b \<Longrightarrow> number_le b c \<Longrightarrow> number_le a c"
  by (cases a; cases b; cases c) simp_all

lemma number_less_infinity: "number_less a PositiveInfinity \<longleftrightarrow> isFinite a"
  by (cases a) simp_all

lemma number_less_finite: "number_less a b \<Longrightarrow> isFinite a"
  by (cases a; cases b) simp_all

lemma not_isFinite: "\<not> isFinite a \<longleftrightarrow> a = PositiveInfinity"
  by (cases a) simp_all

lemma nearestScan_append:
  "nearestScan points i (xs @ ys) st = nearestScan points i ys (nearestScan points i xs st)"
proof (induction xs arbitrary: st)
  case Nil
  show ?case by simp
next
  case (Cons x xs)
  obtain idx dist where st: "st = (idx, dist)"
    by (cases st)
  show ?case
    using Cons.IH by (auto simp: st Let_def)
qed

lemma first_nearest_below_unique:
  assumes "first_nearest_below points i m j" "first_nearest_below points i m j'"
  shows "j = j'"
proof (rule ccontr)
  assume "j \<noteq> j'"
  then consider "j < j'" | "j' < j"
    by linarith
  then show False
  proof cases
    case 1
    with assms have "number_less (distanceSquared (points ! i) (points ! j'))
        (distanceSquared (points ! i) (points ! j))"
      and "number_le (distanceSquared (points ! i) (points ! j))
        (distanceSquared (points ! i) (points ! j'))"
      by (simp_all add: first_nearest_below_def)
    then show False
      by (simp add: number_le_iff_not_less)
  next
    case 2
    with assms have "number_less (distanceSquared (points ! i) (points ! j))
        (distanceSquared (points ! i) (points ! j'))"
      and "number_le (distanceSquared (points ! i) (points ! j'))
        (distanceSquared (points ! i) (points ! j))"
      by (simp_all add: first_nearest_below_def)
    then show False
      by (simp add: number_le_iff_not_less)
  qed
qed

text \<open>
  The state of the inner loop after the positions below \<open>m\<close>: the initial one while no
  other position at finite squared distance has been met, afterwards the first nearest
  neighbour among the positions met and its squared distance.
\<close>

lemma nearestScan_invariant:
  "\<exists>idx dist. nearestScan points i [0..<m] (- 1, PositiveInfinity) = (idx, dist)
     \<and> (if neighbour_in_range_below points i m
         then \<exists>j. idx = int j \<and> dist = distanceSquared (points ! i) (points ! j)
                \<and> first_nearest_below points i m j
         else idx = - 1 \<and> dist = PositiveInfinity)"
proof (induction m)
  case 0
  show ?case by (simp add: neighbour_in_range_below_def)
next
  case (Suc m)
  then obtain idx dist where
    scan: "nearestScan points i [0..<m] (- 1, PositiveInfinity) = (idx, dist)"
    and inv: "if neighbour_in_range_below points i m
         then \<exists>j. idx = int j \<and> dist = distanceSquared (points ! i) (points ! j)
                \<and> first_nearest_below points i m j
         else idx = - 1 \<and> dist = PositiveInfinity"
    by blast
  have step: "nearestScan points i [0..<Suc m] (- 1, PositiveInfinity)
      = nearestScan points i [m] (idx, dist)"
    by (simp add: nearestScan_append scan)
  let ?d = "distanceSquared (points ! i) (points ! m)"
  show ?case
  proof (cases "i = m")
    case True
    have same: "first_nearest_below points i (Suc m) j" if "first_nearest_below points i m j" for j
      using that True unfolding first_nearest_below_def by (auto simp: less_Suc_eq)
    have range: "neighbour_in_range_below points i (Suc m) \<longleftrightarrow> neighbour_in_range_below points i m"
      using True by (auto simp: neighbour_in_range_below_def less_Suc_eq)
    show ?thesis
      unfolding step range using inv True same by (auto split: if_splits)
  next
    case False
    show ?thesis
    proof (cases "neighbour_in_range_below points i m")
      case none: False
      then have init: "idx = - 1" "dist = PositiveInfinity"
        using inv by simp_all
      have far: "distanceSquared (points ! i) (points ! k) = PositiveInfinity"
        if "k < m" "k \<noteq> i" for k
        using none that by (auto simp: neighbour_in_range_below_def not_isFinite)
      show ?thesis
      proof (cases "isFinite ?d")
        case True
        then have "neighbour_in_range_below points i (Suc m)"
          using False by (auto simp: neighbour_in_range_below_def)
        moreover have "first_nearest_below points i (Suc m) m"
          using True False far
          by (auto simp: first_nearest_below_def less_Suc_eq number_le_refl
              number_less_infinity)
        ultimately show ?thesis
          unfolding step using False True init by (auto simp: Let_def number_less_infinity)
      next
        case infinite: False
        then have "\<not> neighbour_in_range_below points i (Suc m)"
          using none by (auto simp: neighbour_in_range_below_def less_Suc_eq)
        then show ?thesis
          unfolding step using False infinite init
          by (auto simp: Let_def number_less_infinity)
      qed
    next
      case some: True
      then obtain j where idx: "idx = int j"
        and dist: "dist = distanceSquared (points ! i) (points ! j)"
        and fn: "first_nearest_below points i m j"
        using inv by auto
      have range: "neighbour_in_range_below points i (Suc m)"
        using some by (auto simp: neighbour_in_range_below_def less_Suc_eq)
      show ?thesis
      proof (cases "number_less ?d (distanceSquared (points ! i) (points ! j))")
        case True
        have le: "number_le ?d (distanceSquared (points ! i) (points ! k))"
          if "k < m" "k \<noteq> i" for k
          using fn that number_less_imp_le [OF number_less_le_trans [OF True]]
          by (simp add: first_nearest_below_def)
        have less: "number_less ?d (distanceSquared (points ! i) (points ! k))"
          if "k < m" "k \<noteq> i" for k
          using fn that number_less_le_trans [OF True]
          by (simp add: first_nearest_below_def)
        have "first_nearest_below points i (Suc m) m"
          using False le less number_less_finite [OF True]
          by (auto simp: first_nearest_below_def less_Suc_eq number_le_refl)
        then show ?thesis
          unfolding step using False range True dist by (auto simp: Let_def)
      next
        case notless: False
        then have "number_le (distanceSquared (points ! i) (points ! j)) ?d"
          by (simp add: number_le_iff_not_less)
        then have "first_nearest_below points i (Suc m) j"
          using fn False unfolding first_nearest_below_def
          by (auto simp: less_Suc_eq)
        then show ?thesis
          unfolding step using False range notless idx dist by (auto simp: Let_def)
      qed
    qed
  qed
qed

lemma nearest_index_cases:
  "(neighbour_in_range points i \<longrightarrow>
      (\<exists>j. nearest_index points i = int j \<and> first_nearest points i j))
   \<and> (\<not> neighbour_in_range points i \<longrightarrow> nearest_index points i = - 1)"
proof -
  obtain idx dist where
    scan: "nearestScan points i [0..<length points] (- 1, PositiveInfinity) = (idx, dist)"
    and inv: "if neighbour_in_range_below points i (length points)
         then \<exists>j. idx = int j \<and> dist = distanceSquared (points ! i) (points ! j)
                \<and> first_nearest_below points i (length points) j
         else idx = - 1 \<and> dist = PositiveInfinity"
    using nearestScan_invariant [of points i "length points"] by blast
  then show ?thesis
    by (auto simp: nearest_index_def first_nearest_def neighbour_in_range_def
        split: if_splits)
qed

lemma first_nearest_in_range: "first_nearest points i j \<Longrightarrow> neighbour_in_range points i"
  by (auto simp: first_nearest_def first_nearest_below_def neighbour_in_range_def
      neighbour_in_range_below_def)

lemma nearestLoop_set:
  "set (nearestLoop points xs edges) =
     set edges \<union> {edgeKey i (nat (nearest_index points i)) | i. i \<in> set xs \<and> 0 \<le> nearest_index points i}"
  by (induction xs arbitrary: edges) (auto simp: Let_def set_add_def nearest_index_def)

lemma nearestLoop_distinct:
  "distinct edges \<Longrightarrow> distinct (nearestLoop points xs edges)"
  by (induction xs arbitrary: edges) (auto simp: Let_def set_add_def)

lemma decodeEdgeKey_edgeKey: "decodeEdgeKey (edgeKey a b) = canonical_edge a b"
  by (simp add: decodeEdgeKey_def edgeKey_def canonical_edge_def min_def max_def)

lemma inj_decodeEdgeKey: "inj decodeEdgeKey"
  by (auto simp: inj_def decodeEdgeKey_def)

text \<open>
  Claim C8, as amended.  For fewer than two points \<^verbatim>\<open>computeNearestNeighborEdges\<close>
  returns the empty list.  For at least two points, every position \<open>i\<close> whose squared
  distance to some other position is finite (does not overflow) has exactly one first
  nearest neighbour (the lowest position among those at minimum squared distance from
  \<open>i\<close>); the edges returned are exactly the canonical edges from such a position to
  its first nearest neighbour, a position whose squared distance to every other one
  is infinite contributing none; and no edge is returned twice (a mutual pair gives one
  edge).
\<close>

theorem nearest_neighbor_edges:
  "(length points < 2 \<longrightarrow> computeNearestNeighborEdges points = [])
   \<and> (2 \<le> length points \<longrightarrow>
        (\<forall>i < length points. neighbour_in_range points i \<longrightarrow> (\<exists>!j. first_nearest points i j))
        \<and> (\<forall>i < length points. \<not> neighbour_in_range points i \<longrightarrow>
              (\<forall>j. \<not> first_nearest points i j))
        \<and> set (computeNearestNeighborEdges points)
            = {canonical_edge i j | i j. i < length points \<and> first_nearest points i j}
        \<and> distinct (computeNearestNeighborEdges points))"
proof (intro conjI impI)
  show "computeNearestNeighborEdges points = []" if "length points < 2"
    using that by (simp add: computeNearestNeighborEdges_def)
next
  assume n: "2 \<le> length points"
  show "\<forall>i < length points. neighbour_in_range points i \<longrightarrow> (\<exists>!j. first_nearest points i j)"
  proof (intro allI impI)
    fix i assume "neighbour_in_range points i"
    then obtain j where "first_nearest points i j"
      using nearest_index_cases [of points i] by blast
    then show "\<exists>!j. first_nearest points i j"
      using first_nearest_below_unique unfolding first_nearest_def by blast
  qed
  show "\<forall>i < length points. \<not> neighbour_in_range points i \<longrightarrow> (\<forall>j. \<not> first_nearest points i j)"
    using first_nearest_in_range by blast
  have keys: "set (nearestLoop points [0..<length points] [])
      = {edgeKey i j | i j. i < length points \<and> first_nearest points i j}"
    (is "?L = ?R")
  proof (intro set_eqI iffI)
    fix e assume "e \<in> ?L"
    then obtain i where i: "i < length points" and found: "0 \<le> nearest_index points i"
      and e: "e = edgeKey i (nat (nearest_index points i))"
      by (auto simp: nearestLoop_set)
    from found have "neighbour_in_range points i"
      using nearest_index_cases [of points i] by auto
    then obtain j where "nearest_index points i = int j" "first_nearest points i j"
      using nearest_index_cases [of points i] by blast
    then show "e \<in> ?R"
      using i e by auto
  next
    fix e assume "e \<in> ?R"
    then obtain i j where i: "i < length points" and fn: "first_nearest points i j"
      and e: "e = edgeKey i j"
      by blast
    obtain j' where j': "nearest_index points i = int j'" "first_nearest points i j'"
      using nearest_index_cases [of points i] first_nearest_in_range [OF fn] by blast
    then have "j' = j"
      using fn first_nearest_below_unique unfolding first_nearest_def by blast
    then show "e \<in> ?L"
      using i e j' by (auto simp: nearestLoop_set intro!: exI [of _ i])
  qed
  have "set (computeNearestNeighborEdges points)
      = decodeEdgeKey ` {edgeKey i j | i j. i < length points \<and> first_nearest points i j}"
    using n keys by (simp add: computeNearestNeighborEdges_def)
  also have "\<dots> = {canonical_edge i j | i j. i < length points \<and> first_nearest points i j}"
  proof -
    have "decodeEdgeKey ` {edgeKey i j | i j. i < length points \<and> first_nearest points i j}
        = {decodeEdgeKey (edgeKey i j) | i j. i < length points \<and> first_nearest points i j}"
      by blast
    then show ?thesis
      by (simp add: decodeEdgeKey_edgeKey)
  qed
  finally show "set (computeNearestNeighborEdges points)
      = {canonical_edge i j | i j. i < length points \<and> first_nearest points i j}" .
  show "distinct (computeNearestNeighborEdges points)"
    using n nearestLoop_distinct [of "[]" points "[0..<length points]"]
    by (simp add: computeNearestNeighborEdges_def distinct_map
        inj_on_subset [OF inj_decodeEdgeKey])
qed

theorem nearest_neighbor_edges_witness:
  "2 \<le> length tie_points
   \<and> computeNearestNeighborEdges tie_points = [(0, 1), (1, 3), (0, 2)]
   \<and> neighbour_in_range tie_points 0
   \<and> first_nearest tie_points 0 1
   \<and> canonical_edge 0 1 \<in> set (computeNearestNeighborEdges tie_points)
   \<and> distinct (computeNearestNeighborEdges tie_points)
   \<and> computeNearestNeighborEdges [\<lparr>id_of = 0, x_of = 1, y_of = 0\<rparr>] = []"
proof -
  have in_range: "\<not> overflows 0" "\<not> overflows 1" "\<not> overflows 2" "\<not> overflows 4"
    "\<not> overflows (- 1)" "\<not> overflows (- 2)" "\<not> overflows (1 / 2)" "\<not> overflows (- (1 / 2))"
    "\<not> overflows (1 / 4)" "\<not> overflows (3 / 2)" "\<not> overflows (- (3 / 2))"
    "\<not> overflows (9 / 4)" "\<not> overflows (5 / 2)" "\<not> overflows (- (5 / 2))"
    "\<not> overflows (25 / 4)"
    by (simp_all add: small_in_range)
  have n: "2 \<le> length tie_points"
    by (simp add: tie_points_def)
  have v: "computeNearestNeighborEdges tie_points = [(0, 1), (1, 3), (0, 2)]"
    by (simp add: computeNearestNeighborEdges_def tie_points_def distanceSquared_def Let_def
        in_range set_add_def edgeKey_def decodeEdgeKey_def)
  have fn: "first_nearest tie_points 0 1"
    by (auto simp: first_nearest_def first_nearest_below_def tie_points_def distanceSquared_def
        in_range less_Suc_eq)
  have "isFinite (distanceSquared (tie_points ! 0) (tie_points ! 1))"
    by (simp add: tie_points_def distanceSquared_def in_range)
  then have "\<exists>k < length tie_points. k \<noteq> 0
      \<and> isFinite (distanceSquared (tie_points ! 0) (tie_points ! k))"
    by (intro exI [of _ 1]) (simp add: tie_points_def)
  then have r: "neighbour_in_range tie_points 0"
    by (simp add: neighbour_in_range_def neighbour_in_range_below_def)
  have pos: "0 < length tie_points"
    by (simp add: tie_points_def)
  note claim = nearest_neighbor_edges [of tie_points]
  note many = claim [THEN conjunct2, THEN mp, OF n]
  have "set (computeNearestNeighborEdges tie_points)
      = {canonical_edge i j | i j. i < length tie_points \<and> first_nearest tie_points i j}"
    by (rule many [THEN conjunct2, THEN conjunct2, THEN conjunct1])
  with pos fn have m: "canonical_edge 0 1 \<in> set (computeNearestNeighborEdges tie_points)"
    by blast
  have d: "distinct (computeNearestNeighborEdges tie_points)"
    by (rule many [THEN conjunct2, THEN conjunct2, THEN conjunct2])
  have "length [\<lparr>id_of = 0, x_of = 1, y_of = 0\<rparr>] < 2"
    by simp
  then have s: "computeNearestNeighborEdges [\<lparr>id_of = 0, x_of = 1, y_of = 0\<rparr>] = []"
    by (rule nearest_neighbor_edges [THEN conjunct1, THEN mp])
  from n v r fn m d s show ?thesis
    by (intro conjI)
qed

text \<open>
  The claim C8 as stated fails: for the two points \<open>(0,0)\<close> and \<open>(2\<^sup>5\<^sup>1\<^sup>2, 0)\<close>, both with
  finite coordinates, the squared distance is computed as positive infinity, which is
  not below the initial nearest distance, and no edge is returned, although each
  point is the only candidate of the other.
\<close>

theorem nearest_neighbor_overflow_counterexample:
  "2 \<le> length far_apart
   \<and> distanceSquared (far_apart ! 0) (far_apart ! 1) = PositiveInfinity
   \<and> computeNearestNeighborEdges far_apart = []
   \<and> canonical_edge 0 1 \<notin> set (computeNearestNeighborEdges far_apart)"
proof -
  have big: "overflows (2 ^ 512 * 2 ^ 512)"
    by (simp add: overflows_def overflow_threshold_def)
  have d01: "distanceSquared (far_apart ! 0) (far_apart ! 1) = PositiveInfinity"
    using big by (simp add: far_apart_def distanceSquared_def Let_def)
  have d10: "distanceSquared (far_apart ! 1) (far_apart ! 0) = PositiveInfinity"
    using big by (simp add: far_apart_def distanceSquared_def Let_def)
  have scan0: "nearestScan far_apart 0 [0, Suc 0] (- 1, PositiveInfinity)
      = (- 1, PositiveInfinity)"
    using d01 by (simp add: Let_def)
  have scan1: "nearestScan far_apart (Suc 0) [0, Suc 0] (- 1, PositiveInfinity)
      = (- 1, PositiveInfinity)"
    using d10 by (simp add: Let_def)
  have len: "length far_apart = 2"
    by (simp add: far_apart_def)
  have upt: "[0..<2] = [0, 1]"
    by (simp add: upt_conv_Cons)
  have e: "computeNearestNeighborEdges far_apart = []"
    by (simp add: computeNearestNeighborEdges_def len upt scan0 scan1 Let_def
        del: nearestScan.simps)
  from len d01 e show ?thesis
    by simp
qed

section \<open>The minimum spanning tree\<close>

lemma hypot_square_values:
  "hypot (- 1) 0 = 1" "hypot 0 (- 1) = 1" "hypot 1 0 = 1" "hypot 0 1 = 1"
  "hypot (- 1) (- 1) = sqrt 2" "hypot 1 1 = sqrt 2"  "hypot 1 (- 1) = sqrt 2"  "hypot (- 1) 1 = sqrt 2"
  "hypot (- (1 / 2)) (- (1 / 2)) = sqrt (1 / 2)" "hypot (1 / 2) (- (1 / 2)) = sqrt (1 / 2)"
  "hypot (1 / 2) (1 / 2) = sqrt (1 / 2)" "hypot (- (1 / 2)) (1 / 2) = sqrt (1 / 2)"
  by (simp_all add: hypot_def)

text \<open>Between points less than a thousand apart in each coordinate nothing overflows.\<close>

lemma distance_near:
  assumes "\<bar>x_of a - x_of b\<bar> \<le> 1000" "\<bar>y_of a - y_of b\<bar> \<le> 1000"
  shows "distance a b = Finite (hypot (x_of a - x_of b) (y_of a - y_of b))"
proof -
  have "\<not> overflows (x_of a - x_of b)" "\<not> overflows (y_of a - y_of b)"
    using assms by (simp_all add: small_in_range)
  moreover have "\<not> overflows (hypot (x_of a - x_of b) (y_of a - y_of b))"
    using assms by (rule hypot_in_range)
  ultimately show ?thesis
    by (simp add: distance_def Let_def)
qed

lemma mst_init_value:
  "mstInit unit_square_and_center =
    \<lparr>visited = [True, False, False, False, False],
     distances = [PositiveInfinity, Finite 1, Finite (sqrt 2), Finite 1, Finite (sqrt (1 / 2))],
     parent = [- 1, 0, 0, 0, 0], mst_edges = []\<rparr>"
  by (simp add: mstInit_def unit_square_and_center_def distance_near hypot_square_values Let_def upt_conv_Cons)

lemma mst_square:
  "computeMinimumSpanningTreeEdges unit_square_and_center = [(0, 4), (1, 4), (2, 4), (3, 4)]"
  unfolding computeMinimumSpanningTreeEdges_def Let_def mst_init_value
  by (simp add: unit_square_and_center_def distance_near hypot_square_values Let_def upt_conv_Cons
      mstBody_def)

lemma adjacent_sym: "(u, v) \<in> adjacent es \<Longrightarrow> (v, u) \<in> adjacent es"
  by (auto simp: adjacent_def)

lemma connects_refl: "connects es u u"
  by (simp add: connects_def)

lemma connects_sym: "connects es u v \<Longrightarrow> connects es v u"
proof -
  assume "connects es u v"
  then have "(u, v) \<in> (adjacent es)\<^sup>*"
    by (simp add: connects_def)
  then have "(v, u) \<in> ((adjacent es)\<inverse>)\<^sup>*"
    by (simp add: rtrancl_converse)
  moreover have "(adjacent es)\<inverse> = adjacent es"
    by (auto simp: adjacent_def)
  ultimately show ?thesis
    by (simp add: connects_def)
qed

lemma connects_trans: "connects es u v \<Longrightarrow> connects es v w \<Longrightarrow> connects es u w"
  by (auto simp: connects_def)

lemma connects_mono:
  assumes "set es \<subseteq> set es'" "connects es u v"
  shows "connects es' u v"
proof -
  have "adjacent es \<subseteq> adjacent es'"
    using assms(1) by (auto simp: adjacent_def)
  then show ?thesis
    using assms(2) rtrancl_mono unfolding connects_def by blast
qed

lemma connects_edge: "(u, v) \<in> set es \<Longrightarrow> connects es u v"
  by (auto simp: connects_def adjacent_def)

lemma connects_distinct_touches:
  assumes "connects es u v" "u \<noteq> v"
  shows "\<exists>w. (w, v) \<in> adjacent es"
proof -
  from assms(1) have "(u, v) \<in> (adjacent es)\<^sup>*"
    by (simp add: connects_def)
  then show ?thesis
    using assms(2) by (cases rule: rtranclE) auto
qed

text \<open>A leaf can be cut off a chain: \<open>b\<close> is touched by the one edge to \<open>p\<close> only.\<close>

lemma connects_leaf:
  assumes conn: "connects (es @ [e]) x y"
    and e: "e = (p, b) \<or> e = (b, p)"
    and fresh: "\<forall>(u, v) \<in> set es. u \<noteq> b \<and> v \<noteq> b"
    and x: "x \<noteq> b"
  shows "if y = b then connects es x p else connects es x y"
proof -
  from conn have "(x, y) \<in> (adjacent (es @ [e]))\<^sup>*"
    by (simp add: connects_def)
  then show ?thesis
  proof (induction rule: rtrancl_induct)
    case base
    show ?case using x by (simp add: connects_refl)
  next
    case (step y z)
    from step.hyps(2) consider (old) "(y, z) \<in> adjacent es"
      | (down) "y = p" "z = b" | (up) "y = b" "z = p"
      using e by (auto simp: adjacent_def)
    then show ?case
    proof cases
      case old
      then have "y \<noteq> b" "z \<noteq> b"
        using fresh by (auto simp: adjacent_def)
      moreover from old have "connects es y z"
        by (auto simp: connects_def)
      ultimately show ?thesis
        using step.IH connects_trans by auto
    next
      case down
      show ?thesis
      proof (cases "p = b")
        case True
        with down step.IH show ?thesis by simp
      next
        case False
        with down step.IH show ?thesis by simp
      qed
    next
      case up
      show ?thesis
      proof (cases "p = b")
        case True
        with up step.IH show ?thesis by simp
      next
        case False
        with up step.IH show ?thesis by simp
      qed
    qed
  qed
qed

lemma acyclic_graph_leaf:
  assumes acyc: "acyclic_graph es"
    and e: "e = (p, b) \<or> e = (b, p)"
    and fresh: "\<forall>(u, v) \<in> set es. u \<noteq> b \<and> v \<noteq> b"
    and pb: "p \<noteq> b"
  shows "acyclic_graph (es @ [e])"
proof -
  have new: "e \<notin> set es"
    using e fresh by auto
  have dist: "distinct (es @ [e])"
    using acyc new by (simp add: acyclic_graph_def)
  have bridge_new: "\<not> connects (remove1 e (es @ [e])) (fst e) (snd e)"
  proof
    assume "connects (remove1 e (es @ [e])) (fst e) (snd e)"
    then have c: "connects es (fst e) (snd e)"
      using new by (simp add: remove1_append)
    from e have "connects es p b"
    proof
      assume "e = (p, b)" with c show ?thesis by simp
    next
      assume "e = (b, p)" with c show ?thesis by (simp add: connects_sym)
    qed
    then obtain w where "(w, b) \<in> adjacent es"
      using connects_distinct_touches pb by blast
    then show False
      using fresh by (auto simp: adjacent_def)
  qed
  have bridge_old: "\<not> connects (remove1 f (es @ [e])) (fst f) (snd f)" if f: "f \<in> set es" for f
  proof
    assume "connects (remove1 f (es @ [e])) (fst f) (snd f)"
    then have c: "connects (remove1 f es @ [e]) (fst f) (snd f)"
      using f by (simp add: remove1_append)
    have fresh': "\<forall>(u, v) \<in> set (remove1 f es). u \<noteq> b \<and> v \<noteq> b"
      using fresh set_remove1_subset [of f es] by blast
    have ends: "fst f \<noteq> b" "snd f \<noteq> b"
      using f fresh by auto
    have "connects (remove1 f es) (fst f) (snd f)"
      using connects_leaf [OF c e fresh' ends(1)] ends(2) by simp
    then show False
      using acyc f by (simp add: acyclic_graph_def)
  qed
  show ?thesis
    unfolding acyclic_graph_def using dist bridge_new bridge_old by auto
qed

lemma mstInitLoop_frame:
  "visited (mstInitLoop points xs s) = visited s
   \<and> mst_edges (mstInitLoop points xs s) = mst_edges s
   \<and> length (distances (mstInitLoop points xs s)) = length (distances s)
   \<and> length (parent (mstInitLoop points xs s)) = length (parent s)"
  by (induction xs arbitrary: s) auto

lemma mstInitLoop_untouched:
  "j \<notin> set xs \<Longrightarrow>
   distances (mstInitLoop points xs s) ! j = distances s ! j
   \<and> parent (mstInitLoop points xs s) ! j = parent s ! j"
  by (induction xs arbitrary: s) auto

lemma mstInitLoop_touched:
  "j \<in> set xs \<Longrightarrow> j < length (distances s) \<Longrightarrow> j < length (parent s) \<Longrightarrow>
   distances (mstInitLoop points xs s) ! j = distance (points ! 0) (points ! j)
   \<and> parent (mstInitLoop points xs s) ! j = 0"
proof (induction xs arbitrary: s)
  case Nil
  then show ?case by simp
next
  case (Cons i rest)
  show ?case
  proof (cases "j \<in> set rest")
    case True
    then show ?thesis
      using Cons.IH Cons.prems by simp
  next
    case False
    then have "j = i" using Cons.prems by simp
    then show ?thesis
      using False Cons.prems by (simp add: mstInitLoop_untouched)
  qed
qed

lemma acyclic_graph_Nil: "acyclic_graph []"
  by (simp add: acyclic_graph_def)

lemma mst_inv_init:
  assumes "2 \<le> length points" and range: "first_in_range points"
  shows "mst_inv points (mstInit points) \<and> card (visited_set (mstInit points)) = 1"
proof -
  let ?n = "length points"
  let ?init = "\<lparr>visited = (replicate ?n False)[0 := True],
            distances = replicate ?n PositiveInfinity,
            parent = replicate ?n (- 1),
            mst_edges = []\<rparr>"
  let ?s = "mstInitLoop points [Suc 0..<?n] ?init"
  have s: "mstInit points = ?s"
    by (simp add: mstInit_def Let_def)
  have vis: "visited ?s = (replicate ?n False)[0 := True]" and ed: "mst_edges ?s = []"
    and ld: "length (distances ?s) = ?n" and lp: "length (parent ?s) = ?n"
    using mstInitLoop_frame [of points "[Suc 0..<?n]" ?init] by simp_all
  have ne: "points \<noteq> []"
    using assms by auto
  have vs: "visited_set ?s = {0}"
    using ne by (auto simp: visited_set_def vis nth_list_update)
  have unv: "isFinite (distances ?s ! j) \<and> (\<exists>p \<in> visited_set ?s. parent ?s ! j = int p)"
    if "j < ?n" "\<not> visited ?s ! j" for j
  proof -
    have "j \<noteq> 0"
      using that ne by (auto simp: vis nth_list_update split: if_splits)
    then have "j \<in> set [Suc 0..<?n]"
      using that(1) by simp
    moreover have "isFinite (distance (points ! 0) (points ! j))"
      using range that(1) by (simp add: first_in_range_def)
    ultimately show ?thesis
      using mstInitLoop_touched [of j "[Suc 0..<?n]" ?init points] that(1) vs by simp
  qed
  show ?thesis
    unfolding s mst_inv_def
    using unv by (simp add: vis ed ld lp vs acyclic_graph_Nil connects_refl)
qed

lemma findBest_cases:
  "findBest s js (bi, bd) = (bi', bd') \<Longrightarrow>
   (bi' = bi \<and> bd' = bd
      \<and> (\<forall>j \<in> set js. \<not> visited s ! j \<longrightarrow> \<not> number_less (distances s ! j) bd))
   \<or> (\<exists>j \<in> set js. \<not> visited s ! j \<and> bi' = int j)"
proof (induction js arbitrary: bi bd)
  case Nil
  then show ?case by simp
next
  case (Cons j js)
  show ?case
  proof (cases "visited s ! j")
    case True
    then show ?thesis
      using Cons.IH [of bi bd] Cons.prems by auto
  next
    case False
    show ?thesis
    proof (cases "number_less (distances s ! j) bd")
      case True
      then have "findBest s js (int j, distances s ! j) = (bi', bd')"
        using Cons.prems False by simp
      from Cons.IH [OF this] show ?thesis
        using False by auto
    next
      case nl: False
      then have "findBest s js (bi, bd) = (bi', bd')"
        using Cons.prems False by simp
      from Cons.IH [OF this] show ?thesis
        using False nl by auto
    qed
  qed
qed

lemma findBest_finds:
  assumes "j < n" "\<not> visited s ! j" "isFinite (distances s ! j)"
  shows "\<exists>b < n. \<not> visited s ! b \<and> fst (findBest s [0..<n] (- 1, PositiveInfinity)) = int b"
proof -
  obtain bi' bd' where r: "findBest s [0..<n] (- 1, PositiveInfinity) = (bi', bd')"
    by (cases "findBest s [0..<n] (- 1, PositiveInfinity)")
  have "number_less (distances s ! j) PositiveInfinity"
    using assms(3) by (cases "distances s ! j") simp_all
  then have "\<not> (\<forall>j \<in> set [0..<n]. \<not> visited s ! j \<longrightarrow>
      \<not> number_less (distances s ! j) PositiveInfinity)"
    using assms(1,2) by auto
  with findBest_cases [OF r] show ?thesis
    using r by auto
qed

lemma relax_frame:
  "visited (relax points b js s) = visited s
   \<and> mst_edges (relax points b js s) = mst_edges s
   \<and> length (distances (relax points b js s)) = length (distances s)
   \<and> length (parent (relax points b js s)) = length (parent s)"
  by (induction js arbitrary: s) (auto simp: Let_def)

lemma relax_entries:
  "j < length (distances s) \<Longrightarrow> j < length (parent s) \<Longrightarrow>
   (distances (relax points b js s) ! j = distances s ! j
      \<and> parent (relax points b js s) ! j = parent s ! j)
   \<or> (isFinite (distances (relax points b js s) ! j)
      \<and> parent (relax points b js s) ! j = int b)"
proof (induction js arbitrary: s)
  case Nil
  then show ?case by simp
next
  case (Cons i js)
  let ?d = "distance (points ! b) (points ! i)"
  let ?s' = "s\<lparr>distances := (distances s)[i := ?d], parent := (parent s)[i := int b]\<rparr>"
  show ?case
  proof (cases "\<not> visited s ! i \<and> number_less ?d (distances s ! i)")
    case False
    then have "relax points b (i # js) s = relax points b js s"
      by (auto simp: Let_def)
    then show ?thesis
      using Cons.IH [of s] Cons.prems by simp
  next
    case True
    then have r: "relax points b (i # js) s = relax points b js ?s'"
      by (simp add: Let_def)
    have "j < length (distances ?s')" "j < length (parent ?s')"
      using Cons.prems by simp_all
    from Cons.IH [OF this] show ?thesis
      unfolding r using Cons.prems True number_less_finite [of ?d "distances s ! i"]
      by (cases "i = j") auto
  qed
qed

lemma visited_set_update:
  assumes "b < length (visited s)"
  shows "visited_set (s\<lparr>visited := (visited s)[b := True]\<rparr>) = insert b (visited_set s)"
  using assms by (auto simp: visited_set_def nth_list_update)

lemma finite_visited_set: "finite (visited_set s)"
  by (simp add: visited_set_def)

lemma mstBody_step:
  assumes inv: "mst_inv points s" and more: "card (visited_set s) < length points"
  shows "\<exists>s'. mstBody points s = Some s' \<and> mst_inv points s'
           \<and> card (visited_set s') = card (visited_set s) + 1"
proof -
  let ?n = "length points"
  let ?V = "visited_set s"
  let ?E = "mst_edges s"
  from inv have len: "length (visited s) = ?n" "length (distances s) = ?n" "length (parent s) = ?n"
    and root: "0 \<in> ?V"
    and unv: "\<And>j. j < ?n \<Longrightarrow> \<not> visited s ! j \<Longrightarrow>
            isFinite (distances s ! j) \<and> (\<exists>p \<in> ?V. parent s ! j = int p)"
    and edges: "\<And>a b. (a, b) \<in> set ?E \<Longrightarrow> 0 \<le> a \<and> a < b \<and> nat a \<in> ?V \<and> nat b \<in> ?V"
    and conn: "\<And>j. j \<in> ?V \<Longrightarrow> connects ?E 0 (int j)"
    and acyc: "acyclic_graph ?E"
    and count: "length ?E + 1 = card ?V"
    unfolding mst_inv_def by auto
  have sub: "?V \<subseteq> {..<?n}"
    using len by (auto simp: visited_set_def)
  have "\<exists>j < ?n. j \<notin> ?V"
  proof (rule ccontr)
    assume "\<not> (\<exists>j < ?n. j \<notin> ?V)"
    then have "{..<?n} \<subseteq> ?V" by auto
    with sub have "?V = {..<?n}" by auto
    with more show False by simp
  qed
  then obtain j where j: "j < ?n" "\<not> visited s ! j"
    using len by (auto simp: visited_set_def)
  then have "isFinite (distances s ! j)"
    using unv by blast
  from findBest_finds [OF j this]
  obtain b where b: "b < ?n" "\<not> visited s ! b"
    and best: "fst (findBest s [0..<?n] (- 1, PositiveInfinity)) = int b"
    by blast
  from unv [OF b] obtain p where p: "p \<in> ?V" "parent s ! b = int p"
    by blast
  have bV: "b \<notin> ?V"
    using b by (simp add: visited_set_def)
  have pb: "p \<noteq> b"
    using p bV by auto
  let ?e = "(min (int b) (int p), max (int b) (int p))"
  let ?s2 = "s\<lparr>visited := (visited s)[b := True], mst_edges := ?E @ [?e]\<rparr>"
  let ?s' = "relax points b [0..<?n] ?s2"
  have body: "mstBody points s = Some ?s'"
    using best p by (simp add: mstBody_def Let_def)
  have frame: "visited ?s' = (visited s)[b := True]" "mst_edges ?s' = ?E @ [?e]"
    "length (distances ?s') = ?n" "length (parent ?s') = ?n"
    using relax_frame [of points b "[0..<?n]" ?s2] len by simp_all
  have V': "visited_set ?s' = insert b ?V"
    using b(1) len by (auto simp: visited_set_def frame nth_list_update)
  have card': "card (visited_set ?s') = card ?V + 1"
    unfolding V' using bV finite_visited_set by simp
  have e_cases: "?e = (int p, int b) \<or> ?e = (int b, int p)"
    by (auto simp: min_def max_def)
  have fresh: "\<forall>(u, v) \<in> set ?E. u \<noteq> int b \<and> v \<noteq> int b"
  proof (clarify, intro conjI)
    fix u v assume uv: "(u, v) \<in> set ?E"
    from edges [OF uv] have "nat u \<in> ?V" "nat v \<in> ?V" by simp_all
    then show "u \<noteq> int b" "v \<noteq> int b"
      using bV by auto
  qed
  have unv': "isFinite (distances ?s' ! k) \<and> (\<exists>q \<in> visited_set ?s'. parent ?s' ! k = int q)"
    if k: "k < ?n" "\<not> visited ?s' ! k" for k
  proof -
    have kb: "k \<noteq> b" and kv: "\<not> visited s ! k"
      using k b(1) len by (auto simp: frame nth_list_update split: if_splits)
    have "k < length (distances ?s2)" "k < length (parent ?s2)"
      using k(1) len by simp_all
    from relax_entries [OF this, of points b "[0..<?n]"]
    show ?thesis
    proof
      assume "distances ?s' ! k = distances ?s2 ! k \<and> parent ?s' ! k = parent ?s2 ! k"
      then show ?thesis
        using unv [OF k(1) kv] V' by auto
    next
      assume "isFinite (distances ?s' ! k) \<and> parent ?s' ! k = int b"
      then show ?thesis
        using V' by auto
    qed
  qed
  have edges': "0 \<le> u \<and> u < v \<and> nat u \<in> visited_set ?s' \<and> nat v \<in> visited_set ?s'"
    if "(u, v) \<in> set (mst_edges ?s')" for u v
  proof -
    from that consider "(u, v) \<in> set ?E" | "(u, v) = ?e"
      by (auto simp: frame)
    then show ?thesis
    proof cases
      case 1
      from edges [OF 1] show ?thesis
        using V' by auto
    next
      case 2
      then show ?thesis
        using pb p(1) V' by (auto simp: min_def max_def)
    qed
  qed
  have mono: "connects (?E @ [?e]) x y" if "connects ?E x y" for x y
    using connects_mono [OF _ that, of "?E @ [?e]"] by auto
  have new_edge: "connects (?E @ [?e]) (int p) (int b)"
  proof -
    have "connects (?E @ [?e]) (fst ?e) (snd ?e)"
      by (rule connects_edge) simp
    then show ?thesis
      using e_cases connects_sym by (auto simp: min_def max_def split: if_splits)
  qed
  have conn': "connects (mst_edges ?s') 0 (int k)" if "k \<in> visited_set ?s'" for k
  proof (cases "k = b")
    case True
    have "connects (?E @ [?e]) 0 (int p)"
      using conn [OF p(1)] by (rule mono)
    then show ?thesis
      unfolding frame True using new_edge connects_trans by blast
  next
    case False
    then have "k \<in> ?V"
      using that V' by auto
    then show ?thesis
      unfolding frame using conn mono by blast
  qed
  have acyc': "acyclic_graph (mst_edges ?s')"
    unfolding frame
    using acyclic_graph_leaf [OF acyc e_cases fresh] pb by simp
  have count': "length (mst_edges ?s') + 1 = card (visited_set ?s')"
    unfolding card' using count by (simp add: frame)
  have root': "0 \<in> visited_set ?s'"
    using root V' by simp
  have lens': "length (visited ?s') = ?n"
    using len by (simp add: frame)
  have "mst_inv points ?s'"
    unfolding mst_inv_def
    using lens' frame(3,4) root' unv' edges' conn' acyc' count' by auto
  with body card' show ?thesis
    by blast
qed

lemma mstLoop_inv:
  assumes "mst_inv points s" "card (visited_set s) + length rest = length points"
  shows "mst_inv points (mstLoop points rest s)
         \<and> card (visited_set (mstLoop points rest s)) = length points"
  using assms
proof (induction rest arbitrary: s)
  case Nil
  then show ?case by simp
next
  case (Cons iteration rest)
  then have "card (visited_set s) < length points"
    by simp
  from mstBody_step [OF Cons.prems(1) this]
  obtain s' where s': "mstBody points s = Some s'" "mst_inv points s'"
    "card (visited_set s') = card (visited_set s) + 1"
    by blast
  then have "card (visited_set s') + length rest = length points"
    using Cons.prems(2) by simp
  from Cons.IH [OF s'(2) this] show ?case
    by (simp add: s'(1))
qed

text \<open>
  Claim C1, as amended.  For fewer than two points
  \<^verbatim>\<open>computeMinimumSpanningTreeEdges\<close> returns the empty list.  For \<open>n \<ge> 2\<close> points such
  that the distance computed from the first point to every other one is finite (does
  not overflow) it returns exactly \<open>n - 1\<close> edges, the edges are acyclic, any two of
  the \<open>n\<close> positions are connected by them, and every edge joins two positions of the
  sequence, the smaller index first.
\<close>

theorem mst_is_spanning_tree:
  "(length points < 2 \<longrightarrow> computeMinimumSpanningTreeEdges points = [])
   \<and> (2 \<le> length points \<and> first_in_range points \<longrightarrow>
        length (computeMinimumSpanningTreeEdges points) = length points - 1
        \<and> acyclic_graph (computeMinimumSpanningTreeEdges points)
        \<and> (\<forall>i < length points. \<forall>j < length points.
              connects (computeMinimumSpanningTreeEdges points) (int i) (int j))
        \<and> (\<forall>(a, b) \<in> set (computeMinimumSpanningTreeEdges points).
              0 \<le> a \<and> a < b \<and> b < int (length points)))"
proof (intro conjI impI)
  show "computeMinimumSpanningTreeEdges points = []" if "length points < 2"
    using that by (simp add: computeMinimumSpanningTreeEdges_def)
next
  assume "2 \<le> length points \<and> first_in_range points"
  then have n: "2 \<le> length points" and range: "first_in_range points"
    by simp_all
  let ?n = "length points"
  let ?s = "mstLoop points [1..<?n] (mstInit points)"
  have res: "computeMinimumSpanningTreeEdges points = mst_edges ?s"
    using n by (simp add: computeMinimumSpanningTreeEdges_def Let_def)
  have "card (visited_set (mstInit points)) + length [1..<?n] = ?n"
    using mst_inv_init [OF n range] n by simp
  with mst_inv_init [OF n range] have fin: "mst_inv points ?s" "card (visited_set ?s) = ?n"
    using mstLoop_inv by blast+
  have "visited_set ?s \<subseteq> {..<?n}"
    using fin(1) by (auto simp: visited_set_def mst_inv_def)
  then have all: "visited_set ?s = {..<?n}"
    using fin(2) by (simp add: card_subset_eq)
  have "length (mst_edges ?s) + 1 = card (visited_set ?s)"
    using fin(1) unfolding mst_inv_def by blast
  then show "length (computeMinimumSpanningTreeEdges points) = ?n - 1"
    unfolding res fin(2) by linarith
  show "acyclic_graph (computeMinimumSpanningTreeEdges points)"
    using fin(1) unfolding res mst_inv_def by simp
  have root: "connects (mst_edges ?s) 0 (int i)" if "i < ?n" for i
    using fin(1) that all unfolding mst_inv_def by auto
  show "\<forall>i < ?n. \<forall>j < ?n. connects (computeMinimumSpanningTreeEdges points) (int i) (int j)"
    unfolding res using root connects_sym connects_trans by blast
  show "\<forall>(a, b) \<in> set (computeMinimumSpanningTreeEdges points).
          0 \<le> a \<and> a < b \<and> b < int ?n"
  proof (clarify, intro conjI)
    fix a b assume ab: "(a, b) \<in> set (computeMinimumSpanningTreeEdges points)"
    then have *: "0 \<le> a \<and> a < b \<and> nat a \<in> visited_set ?s \<and> nat b \<in> visited_set ?s"
      using fin(1) unfolding res mst_inv_def by auto
    then show "0 \<le> a" "a < b" by simp_all
    from * have "nat b < ?n"
      using all by auto
    with * show "b < int ?n" by linarith
  qed
qed

theorem mst_is_spanning_tree_witness:
  "2 \<le> length three_on_a_line
   \<and> first_in_range three_on_a_line
   \<and> computeMinimumSpanningTreeEdges three_on_a_line = [(0, 2), (1, 2)]
   \<and> length (computeMinimumSpanningTreeEdges three_on_a_line) = 2
   \<and> acyclic_graph (computeMinimumSpanningTreeEdges three_on_a_line)
   \<and> connects (computeMinimumSpanningTreeEdges three_on_a_line) 0 1
   \<and> computeMinimumSpanningTreeEdges [\<lparr>id_of = 0, x_of = 0, y_of = 0\<rparr>] = []"
proof -
  have n: "2 \<le> length three_on_a_line"
    by (simp add: three_on_a_line_def)
  have r: "first_in_range three_on_a_line"
    by (simp add: first_in_range_def three_on_a_line_def distance_near less_Suc_eq
        numeral_3_eq_3)
  have v: "computeMinimumSpanningTreeEdges three_on_a_line = [(0, 2), (1, 2)]"
    by (simp add: computeMinimumSpanningTreeEdges_def mstInit_def mstBody_def
        three_on_a_line_def distance_near hypot_zero_right Let_def upt_conv_Cons)
  have i: "(0::nat) < length three_on_a_line" "(1::nat) < length three_on_a_line"
    by (simp_all add: three_on_a_line_def)
  note claim = mst_is_spanning_tree [of three_on_a_line]
  note tree = claim [THEN conjunct2, THEN mp, OF conjI [OF n r]]
  have l: "length (computeMinimumSpanningTreeEdges three_on_a_line) = 2"
    using tree [THEN conjunct1] by (simp add: three_on_a_line_def)
  have a: "acyclic_graph (computeMinimumSpanningTreeEdges three_on_a_line)"
    by (rule tree [THEN conjunct2, THEN conjunct1])
  have "connects (computeMinimumSpanningTreeEdges three_on_a_line) (int 0) (int 1)"
    by (rule tree [THEN conjunct2, THEN conjunct2, THEN conjunct1, THEN spec, THEN mp,
          OF i(1), THEN spec, THEN mp, OF i(2)])
  then have c: "connects (computeMinimumSpanningTreeEdges three_on_a_line) 0 1"
    by simp
  have "length [\<lparr>id_of = 0, x_of = 0, y_of = 0\<rparr>] < 2"
    by simp
  then have e: "computeMinimumSpanningTreeEdges [\<lparr>id_of = 0, x_of = 0, y_of = 0\<rparr>] = []"
    by (rule mst_is_spanning_tree [THEN conjunct1, THEN mp])
  from n r v l a c e show ?thesis
    by (intro conjI)
qed

text \<open>
  The claim C1 as stated fails: the two points \<open>(-2\<^sup>1\<^sup>0\<^sup>2\<^sup>3, 0)\<close> and \<open>(2\<^sup>1\<^sup>0\<^sup>2\<^sup>3, 0)\<close> have
  finite coordinates, the difference of the coordinates leaves the range of the
  doubles and the distance is positive infinity; the scan finds no position, the
  loop breaks, and the result has no edge where \<open>n - 1 = 1\<close>.
\<close>

theorem mst_overflow_counterexample:
  "length opposite_ends = 2
   \<and> distance (opposite_ends ! 0) (opposite_ends ! 1) = PositiveInfinity
   \<and> computeMinimumSpanningTreeEdges opposite_ends = []
   \<and> length (computeMinimumSpanningTreeEdges opposite_ends) \<noteq> length opposite_ends - 1"
proof -
  have "(2::real) ^ 1024 = 2 ^ 1023 + 2 ^ 1023"
    by simp
  then have big: "overflows (- (2 ^ 1023) - 2 ^ 1023)"
    by (simp add: overflows_def overflow_threshold_def)
  have d: "distance (opposite_ends ! 0) (opposite_ends ! 1) = PositiveInfinity"
    using big by (simp add: opposite_ends_def distance_def Let_def)
  have len: "length opposite_ends = 2"
    by (simp add: opposite_ends_def)
  have init: "mstInit opposite_ends =
      \<lparr>visited = [True, False], distances = [PositiveInfinity, PositiveInfinity],
       parent = [- 1, 0], mst_edges = []\<rparr>"
    using d by (simp add: mstInit_def len Let_def upt_conv_Cons numeral_2_eq_2)
  have e: "computeMinimumSpanningTreeEdges opposite_ends = []"
    by (simp add: computeMinimumSpanningTreeEdges_def len init mstBody_def Let_def
        upt_conv_Cons)
  from len d e show ?thesis
    by simp
qed

lemma sqrt_half: "sqrt (1 / 2) = sqrt 2 / 2"
  by (rule real_sqrt_unique) (simp_all add: power2_eq_square)

lemma total_length_square:
  "total_length unit_square_and_center [(0, 4), (1, 4), (2, 4), (3, 4)] = 4 * sqrt (1 / 2)"
  by (simp add: total_length_def edge_length_def unit_square_and_center_def
      hypot_square_values)

lemma edge_distance_square:
  "map (edge_distance unit_square_and_center) [(0, 4), (1, 4), (2, 4), (3, 4)]
     = [Finite (sqrt 2 / 2), Finite (sqrt 2 / 2), Finite (sqrt 2 / 2), Finite (sqrt 2 / 2)]"
  by (simp add: edge_distance_def unit_square_and_center_def distance_near
      hypot_square_values sqrt_half)

text \<open>
  Claim C9, as amended.  For the corners of the unit square followed by its centre,
  \<^verbatim>\<open>computeMinimumSpanningTreeEdges\<close> returns exactly the four edges from the centre
  (position 4) to a corner, and their total length is \<open>4 \<times> \<surd>2/2\<close>; the distance the
  code computes along each of them is \<open>\<surd>2/2\<close>.
\<close>

theorem mst_unit_square:
  "computeMinimumSpanningTreeEdges unit_square_and_center = [(0, 4), (1, 4), (2, 4), (3, 4)]
   \<and> length (computeMinimumSpanningTreeEdges unit_square_and_center) = 4
   \<and> total_length unit_square_and_center (computeMinimumSpanningTreeEdges unit_square_and_center)
       = 4 * (sqrt 2 / 2)
   \<and> map (edge_distance unit_square_and_center)
         (computeMinimumSpanningTreeEdges unit_square_and_center)
       = [Finite (sqrt 2 / 2), Finite (sqrt 2 / 2), Finite (sqrt 2 / 2), Finite (sqrt 2 / 2)]"
  unfolding mst_square using total_length_square edge_distance_square
  by (simp add: sqrt_half)

text \<open>
  The claim C9 as stated fails: the total length of the four edges is not \<open>4 \<times> 0.5\<close>.
\<close>

theorem mst_unit_square_length_counterexample:
  "length (computeMinimumSpanningTreeEdges unit_square_and_center) = 4
   \<and> total_length unit_square_and_center (computeMinimumSpanningTreeEdges unit_square_and_center)
       \<noteq> 4 * (1 / 2)"
proof -
  have "(1 / 2) < sqrt (1 / 2)"
    by (rule real_less_rsqrt) (simp add: power2_eq_square)
  then have "4 * sqrt (1 / 2) \<noteq> 4 * (1 / 2)"
    by simp
  then show ?thesis
    by (simp add: mst_square total_length_square)
qed

section \<open>The orchestrator\<close>

text \<open>
  What the orchestrator returns, mode by mode: for an empty point sequence the empty
  record; otherwise the builder of the mode decides \<^verbatim>\<open>graphEdges\<close> and
  \<^verbatim>\<open>alphaTriangles\<close>, and every value that is none of the seven strings tested gives
  the minimum spanning tree.
\<close>

lemma computeDerivedStructures_empty:
  "computeDerivedStructures lib [] width height alpha mode
     = Inr \<lparr>voronoiCells = [], graphEdges = [], alphaTriangles = []\<rparr>"
  by (simp add: computeDerivedStructures_def)

lemma computeDerivedStructures_dispatch:
  assumes "points \<noteq> []"
  shows "computeDerivedStructures lib points width height alpha ''voronoi-bruteforce''
      = packaged (\<lambda>cells. \<lparr>voronoiCells = cells, graphEdges = [], alphaTriangles = []\<rparr>)
          (computeVoronoiBruteForce points width height)"
    and "computeDerivedStructures lib points width height alpha ''voronoi''
      = Inr \<lparr>voronoiCells = cell_polygons lib points, graphEdges = [], alphaTriangles = []\<rparr>"
    and "computeDerivedStructures lib points width height alpha ''alpha-shape''
      = packaged (\<lambda>alphaData. \<lparr>voronoiCells = cell_polygons lib points,
                              graphEdges = boundaryEdges alphaData, alphaTriangles = []\<rparr>)
          (computeAlphaData points (delaunay_from lib) alpha)"
    and "computeDerivedStructures lib points width height alpha ''alpha-complex''
      = packaged (\<lambda>alphaData. \<lparr>voronoiCells = cell_polygons lib points,
                              graphEdges = allEdges alphaData,
                              alphaTriangles = alpha_triangles alphaData\<rparr>)
          (computeAlphaData points (delaunay_from lib) alpha)"
    and "computeDerivedStructures lib points width height alpha ''nn-crust''
      = Inr \<lparr>voronoiCells = cell_polygons lib points,
             graphEdges = computeNearestNeighborEdges points, alphaTriangles = []\<rparr>"
    and "computeDerivedStructures lib points width height alpha ''gabriel''
      = packaged (\<lambda>es. \<lparr>voronoiCells = cell_polygons lib points, graphEdges = es,
                       alphaTriangles = []\<rparr>)
          (computeGabrielEdges points (collectDelaunayEdges (delaunay_from lib)))"
    and "computeDerivedStructures lib points width height alpha ''rng''
      = packaged (\<lambda>es. \<lparr>voronoiCells = cell_polygons lib points, graphEdges = es,
                       alphaTriangles = []\<rparr>)
          (computeRelativeNeighborhoodEdges points (collectDelaunayEdges (delaunay_from lib)))"
    and "mode \<notin> {''voronoi-bruteforce'', ''voronoi'', ''alpha-shape'', ''alpha-complex'',
                 ''nn-crust'', ''gabriel'', ''rng''} \<Longrightarrow>
         computeDerivedStructures lib points width height alpha mode
      = Inr \<lparr>voronoiCells = cell_polygons lib points,
             graphEdges = computeMinimumSpanningTreeEdges points, alphaTriangles = []\<rparr>"
  using assms
  by (simp_all add: computeDerivedStructures_def cell_polygons_def packaged_def Let_def
      split: sum.splits)

text \<open>What the code computes on the single point.\<close>

lemma collectDelaunayEdges_one_point:
  "collectDelaunayEdges (delaunay_from one_point_library) = [(- 1, 0)]"
  by (simp add: collectDelaunayEdges_def one_point_library_def array_get_def nextHalfedge_def
      edgeKey_string_def integer_string_def set_add_def Let_def upt_conv_Cons
      decimal.simps [of 0] decimal.simps [of "Suc 0"] decimal.simps [of 1] digit_char_def)

lemma cell_polygons_one_point:
  "cell_polygons one_point_library one_point = [[(2, 0), (2, 1), (0, 1), (0, 0)]]"
  by (simp add: cell_polygons_def one_point_library_def one_point_def
      polygonWithoutDuplicate_def)

text \<open>
  Claim C6, as amended.  The type \<^verbatim>\<open>GraphMode\<close> has exactly seven members:
  \<^verbatim>\<open>voronoi\<close>, \<^verbatim>\<open>alpha-shape\<close>, \<^verbatim>\<open>alpha-complex\<close>, \<^verbatim>\<open>nn-crust\<close>, \<^verbatim>\<open>gabriel\<close>, \<^verbatim>\<open>rng\<close> and
  \<^verbatim>\<open>mst\<close>.  \<^verbatim>\<open>computeDerivedStructures\<close> returns the empty record for an empty point
  sequence, whatever the mode.  For a non-empty one the mode determines the builder
  and what populates \<^verbatim>\<open>graphEdges\<close> and \<^verbatim>\<open>alphaTriangles\<close>: \<^verbatim>\<open>voronoi\<close> the cells alone;
  \<^verbatim>\<open>alpha-shape\<close> the boundary edges and \<^verbatim>\<open>alpha-complex\<close> all edges and the triangles
  of \<^verbatim>\<open>computeAlphaData\<close>; \<^verbatim>\<open>nn-crust\<close>, \<^verbatim>\<open>gabriel\<close> and \<^verbatim>\<open>rng\<close> the edges of their
  builders, the last two on the edges of the triangulation; \<^verbatim>\<open>mst\<close>, like every
  other value, the minimum spanning tree.  The string \<^verbatim>\<open>voronoi-bruteforce\<close>, no
  member of the type, has a branch of its own: the brute-force raster with no edges
  and no triangles.  Where a builder throws, so does the orchestrator.
\<close>

theorem derived_structures_by_mode:
  "length GraphMode = 7
   \<and> set GraphMode = {''voronoi'', ''alpha-shape'', ''alpha-complex'', ''nn-crust'', ''gabriel'',
                      ''rng'', ''mst''}
   \<and> computeDerivedStructures lib [] width height alpha mode
       = Inr \<lparr>voronoiCells = [], graphEdges = [], alphaTriangles = []\<rparr>
   \<and> (points \<noteq> [] \<longrightarrow>
        computeDerivedStructures lib points width height alpha ''voronoi''
          = Inr \<lparr>voronoiCells = cell_polygons lib points, graphEdges = [],
                 alphaTriangles = []\<rparr>
        \<and> computeDerivedStructures lib points width height alpha ''alpha-shape''
          = packaged (\<lambda>alphaData. \<lparr>voronoiCells = cell_polygons lib points,
                                  graphEdges = boundaryEdges alphaData,
                                  alphaTriangles = []\<rparr>)
              (computeAlphaData points (delaunay_from lib) alpha)
        \<and> computeDerivedStructures lib points width height alpha ''alpha-complex''
          = packaged (\<lambda>alphaData. \<lparr>voronoiCells = cell_polygons lib points,
                                  graphEdges = allEdges alphaData,
                                  alphaTriangles = alpha_triangles alphaData\<rparr>)
              (computeAlphaData points (delaunay_from lib) alpha)
        \<and> computeDerivedStructures lib points width height alpha ''nn-crust''
          = Inr \<lparr>voronoiCells = cell_polygons lib points,
                 graphEdges = computeNearestNeighborEdges points, alphaTriangles = []\<rparr>
        \<and> computeDerivedStructures lib points width height alpha ''gabriel''
          = packaged (\<lambda>es. \<lparr>voronoiCells = cell_polygons lib points, graphEdges = es,
                           alphaTriangles = []\<rparr>)
              (computeGabrielEdges points (collectDelaunayEdges (delaunay_from lib)))
        \<and> computeDerivedStructures lib points width height alpha ''rng''
          = packaged (\<lambda>es. \<lparr>voronoiCells = cell_polygons lib points, graphEdges = es,
                           alphaTriangles = []\<rparr>)
              (computeRelativeNeighborhoodEdges points
                 (collectDelaunayEdges (delaunay_from lib)))
        \<and> computeDerivedStructures lib points width height alpha ''voronoi-bruteforce''
          = packaged (\<lambda>cells. \<lparr>voronoiCells = cells, graphEdges = [], alphaTriangles = []\<rparr>)
              (computeVoronoiBruteForce points width height)
        \<and> (mode \<notin> {''voronoi-bruteforce'', ''voronoi'', ''alpha-shape'', ''alpha-complex'',
                     ''nn-crust'', ''gabriel'', ''rng''} \<longrightarrow>
             computeDerivedStructures lib points width height alpha mode
               = Inr \<lparr>voronoiCells = cell_polygons lib points,
                      graphEdges = computeMinimumSpanningTreeEdges points,
                      alphaTriangles = []\<rparr>))"
proof (intro conjI impI)
  show "length GraphMode = 7"
    by (simp add: GraphMode_def)
  show "set GraphMode = {''voronoi'', ''alpha-shape'', ''alpha-complex'', ''nn-crust'',
      ''gabriel'', ''rng'', ''mst''}"
    by (simp add: GraphMode_def)
  show "computeDerivedStructures lib [] width height alpha mode
       = Inr \<lparr>voronoiCells = [], graphEdges = [], alphaTriangles = []\<rparr>"
    by (rule computeDerivedStructures_empty)
next
  assume ne: "points \<noteq> []"
  note dispatch = computeDerivedStructures_dispatch [OF ne]
  show "computeDerivedStructures lib points width height alpha ''voronoi''
          = Inr \<lparr>voronoiCells = cell_polygons lib points, graphEdges = [],
                 alphaTriangles = []\<rparr>"
    by (rule dispatch)
  show "computeDerivedStructures lib points width height alpha ''alpha-shape''
          = packaged (\<lambda>alphaData. \<lparr>voronoiCells = cell_polygons lib points,
                                  graphEdges = boundaryEdges alphaData,
                                  alphaTriangles = []\<rparr>)
              (computeAlphaData points (delaunay_from lib) alpha)"
    by (rule dispatch)
  show "computeDerivedStructures lib points width height alpha ''alpha-complex''
          = packaged (\<lambda>alphaData. \<lparr>voronoiCells = cell_polygons lib points,
                                  graphEdges = allEdges alphaData,
                                  alphaTriangles = alpha_triangles alphaData\<rparr>)
              (computeAlphaData points (delaunay_from lib) alpha)"
    by (rule dispatch)
  show "computeDerivedStructures lib points width height alpha ''nn-crust''
          = Inr \<lparr>voronoiCells = cell_polygons lib points,
                 graphEdges = computeNearestNeighborEdges points, alphaTriangles = []\<rparr>"
    by (rule dispatch)
  show "computeDerivedStructures lib points width height alpha ''gabriel''
          = packaged (\<lambda>es. \<lparr>voronoiCells = cell_polygons lib points, graphEdges = es,
                           alphaTriangles = []\<rparr>)
              (computeGabrielEdges points (collectDelaunayEdges (delaunay_from lib)))"
    by (rule dispatch)
  show "computeDerivedStructures lib points width height alpha ''rng''
          = packaged (\<lambda>es. \<lparr>voronoiCells = cell_polygons lib points, graphEdges = es,
                           alphaTriangles = []\<rparr>)
              (computeRelativeNeighborhoodEdges points
                 (collectDelaunayEdges (delaunay_from lib)))"
    by (rule dispatch)
  show "computeDerivedStructures lib points width height alpha ''voronoi-bruteforce''
          = packaged (\<lambda>cells. \<lparr>voronoiCells = cells, graphEdges = [], alphaTriangles = []\<rparr>)
              (computeVoronoiBruteForce points width height)"
    by (rule dispatch)
  show "computeDerivedStructures lib points width height alpha mode
               = Inr \<lparr>voronoiCells = cell_polygons lib points,
                      graphEdges = computeMinimumSpanningTreeEdges points,
                      alphaTriangles = []\<rparr>"
    if "mode \<notin> {''voronoi-bruteforce'', ''voronoi'', ''alpha-shape'', ''alpha-complex'',
                     ''nn-crust'', ''gabriel'', ''rng''}"
    using that by (rule dispatch)
qed

theorem derived_structures_by_mode_witness:
  "one_point \<noteq> []
   \<and> ''mst'' \<notin> {''voronoi-bruteforce'', ''voronoi'', ''alpha-shape'', ''alpha-complex'',
                 ''nn-crust'', ''gabriel'', ''rng''}
   \<and> computeDerivedStructures one_point_library one_point 2 1 (Finite 10) ''mst''
       = Inr \<lparr>voronoiCells = [[(2, 0), (2, 1), (0, 1), (0, 0)]], graphEdges = [],
              alphaTriangles = []\<rparr>
   \<and> computeDerivedStructures one_point_library one_point 2 1 (Finite 10) ''voronoi-bruteforce''
       = Inr \<lparr>voronoiCells = [[(0, 0), (1, 0)]], graphEdges = [], alphaTriangles = []\<rparr>
   \<and> computeDerivedStructures one_point_library one_point 2 1 (Finite 10) ''alpha-complex''
       = Inr \<lparr>voronoiCells = [[(2, 0), (2, 1), (0, 1), (0, 0)]], graphEdges = [],
              alphaTriangles = []\<rparr>
   \<and> collectDelaunayEdges (delaunay_from one_point_library) = [(- 1, 0)]
   \<and> computeDerivedStructures one_point_library one_point 2 1 (Finite 10) ''gabriel''
       = Inl TypeError"
proof -
  have ne: "one_point \<noteq> []"
    by (simp add: one_point_def)
  have other: "''mst'' \<notin> {''voronoi-bruteforce'', ''voronoi'', ''alpha-shape'',
      ''alpha-complex'', ''nn-crust'', ''gabriel'', ''rng''}"
    by simp
  note claim = derived_structures_by_mode
    [where lib = one_point_library and points = one_point and width = 2 and height = 1
       and alpha = "Finite 10" and mode = "''mst''"]
  note by_mode = claim [THEN conjunct2, THEN conjunct2, THEN conjunct2, THEN mp, OF ne]
  have tree: "computeMinimumSpanningTreeEdges one_point = []"
    by (simp add: computeMinimumSpanningTreeEdges_def one_point_def)
  have raster: "computeVoronoiBruteForce one_point 2 1 = Inr [[(0, 0), (1, 0)]]"
    by (simp add: one_point_def computeVoronoiBruteForce_def pixels_def MAX_VALUE_def
        array_get_def Let_def upt_conv_Cons)
  have alpha: "computeAlphaData one_point (delaunay_from one_point_library) (Finite 10)
      = Inr \<lparr>alpha_triangles = [], allEdges = [], boundaryEdges = []\<rparr>"
    by (simp add: computeAlphaData_def one_point_library_def alphaLoop.simps alphaBody_def
        array_get_def Let_def)
  have throws: "computeGabrielEdges one_point [(- 1, 0)] = Inl TypeError"
    by (simp add: computeGabrielEdges_def array_get_int_def)
  have mst: "computeDerivedStructures one_point_library one_point 2 1 (Finite 10) ''mst''
       = Inr \<lparr>voronoiCells = [[(2, 0), (2, 1), (0, 1), (0, 0)]], graphEdges = [],
              alphaTriangles = []\<rparr>"
    using by_mode [THEN conjunct2, THEN conjunct2, THEN conjunct2, THEN conjunct2,
        THEN conjunct2, THEN conjunct2, THEN conjunct2, THEN mp, OF other]
    by (simp only: cell_polygons_one_point tree)
  have brute: "computeDerivedStructures one_point_library one_point 2 1 (Finite 10)
        ''voronoi-bruteforce''
       = Inr \<lparr>voronoiCells = [[(0, 0), (1, 0)]], graphEdges = [], alphaTriangles = []\<rparr>"
    using by_mode [THEN conjunct2, THEN conjunct2, THEN conjunct2, THEN conjunct2,
        THEN conjunct2, THEN conjunct2, THEN conjunct1]
    by (simp add: raster packaged_def)
  have complex: "computeDerivedStructures one_point_library one_point 2 1 (Finite 10)
        ''alpha-complex''
       = Inr \<lparr>voronoiCells = [[(2, 0), (2, 1), (0, 1), (0, 0)]], graphEdges = [],
              alphaTriangles = []\<rparr>"
    using by_mode [THEN conjunct2, THEN conjunct2, THEN conjunct1]
    by (simp add: alpha packaged_def cell_polygons_one_point)
  have gabriel: "computeDerivedStructures one_point_library one_point 2 1 (Finite 10)
        ''gabriel'' = Inl TypeError"
    using by_mode [THEN conjunct2, THEN conjunct2, THEN conjunct2, THEN conjunct2,
        THEN conjunct1]
    by (simp add: collectDelaunayEdges_one_point throws packaged_def)
  from ne other mst brute complex collectDelaunayEdges_one_point gabriel show ?thesis
    by (intro conjI)
qed

text \<open>
  The claim C6 as stated fails: the enumeration \<^verbatim>\<open>GraphMode\<close> has not eight values, and
  \<^verbatim>\<open>voronoi-bruteforce\<close> is none of them.
\<close>

theorem graph_mode_eight_values_counterexample:
  "length GraphMode \<noteq> 8 \<and> ''voronoi-bruteforce'' \<notin> set GraphMode
   \<and> set GraphMode \<noteq> {''voronoi'', ''voronoi-bruteforce'', ''alpha-shape'', ''alpha-complex'',
                       ''nn-crust'', ''gabriel'', ''rng'', ''mst''}"
proof -
  have n: "length GraphMode \<noteq> 8"
    by (simp add: GraphMode_def)
  have m: "''voronoi-bruteforce'' \<notin> set GraphMode"
    by (simp add: GraphMode_def)
  have s: "set GraphMode \<noteq> {''voronoi'', ''voronoi-bruteforce'', ''alpha-shape'',
      ''alpha-complex'', ''nn-crust'', ''gabriel'', ''rng'', ''mst''}"
  proof
    assume "set GraphMode = {''voronoi'', ''voronoi-bruteforce'', ''alpha-shape'',
      ''alpha-complex'', ''nn-crust'', ''gabriel'', ''rng'', ''mst''}"
    then have "''voronoi-bruteforce'' \<in> set GraphMode"
      by simp
    with m show False ..
  qed
  from n m s show ?thesis
    by (intro conjI)
qed

end
